theory Spec2Isabelle
  imports Complex_Main "HOL-Library.Log_Nat"
begin

section \<open>JavaScript numbers\<close>

text \<open>
  Every price, band value and intermediate result of the program is a JavaScript
  \<^verbatim>\<open>number\<close>, that is an IEEE 754 binary64 value.  A number is modelled as a finite
  real, one of the two infinities, or NaN.  The two zeros are identified: the program
  never divides by a computed value (its only divisor is \<^verbatim>\<open>period\<close>), and \<^verbatim>\<open>-0 == 0\<close>
  in every comparison it makes.

  Each arithmetic operation computes the exact real result and rounds it to the
  nearest binary64 value, ties to even (\<open>round64\<close>): 53 significant bits, exponents
  from \<open>-1022\<close> to \<open>1023\<close>, gradual underflow below \<open>2 powi (-1022)\<close>, overflow to an
  infinity from \<open>2 powi 1024\<close> on.  The square \<^verbatim>\<open>x ** 2\<close> and \<^verbatim>\<open>Math.sqrt\<close> are
  rounded in the same way; the windows evaluated below only meet squares and roots
  that are binary64 values themselves.
\<close>

datatype number = Num real | PosInf | NegInf | NaN

definition expo :: "real \<Rightarrow> int" where
  \<comment> \<open>the binary exponent of the binade of \<open>x\<close>, not below that of the subnormals\<close>
  "expo x = (if x = 0 then - 1022 else max (- 1022)
     (if 1 \<le> \<bar>x\<bar> then bitlen \<lfloor>\<bar>x\<bar>\<rfloor> - 1 else - bitlen (\<lceil>1 / \<bar>x\<bar>\<rceil> - 1)))"

definition ulp :: "real \<Rightarrow> real" where
  \<comment> \<open>the spacing of binary64 values in the binade of \<open>x\<close>\<close>
  "ulp x = 2 powi (expo x - 52)"

definition rne :: "real \<Rightarrow> int" where
  \<comment> \<open>round to the nearest integer, ties to the even one\<close>
  "rne t = (let f = \<lfloor>t\<rfloor>; r = t - of_int f in
     if r < 1 / 2 then f else if 1 / 2 < r then f + 1 else if even f then f else f + 1)"

definition fl :: "real \<Rightarrow> real" where
  \<comment> \<open>the nearest multiple of the spacing, before the check for overflow\<close>
  "fl x = of_int (rne (x / ulp x)) * ulp x"

definition round64 :: "real \<Rightarrow> number" where
  "round64 x = (let y = fl x in
     if 2 powi 1024 \<le> y then PosInf else if y \<le> - (2 powi 1024) then NegInf else Num y)"

definition is_double :: "real \<Rightarrow> bool" where
  \<comment> \<open>the finite binary64 values are the reals that rounding leaves alone\<close>
  "is_double x \<longleftrightarrow> round64 x = Num x"

fun num_neg :: "number \<Rightarrow> number" where
  "num_neg (Num a) = Num (- a)"
| "num_neg PosInf = NegInf"
| "num_neg NegInf = PosInf"
| "num_neg NaN = NaN"

fun num_add :: "number \<Rightarrow> number \<Rightarrow> number" where
  "num_add (Num a) (Num b) = round64 (a + b)"
| "num_add NaN _ = NaN"
| "num_add _ NaN = NaN"
| "num_add PosInf NegInf = NaN"
| "num_add NegInf PosInf = NaN"
| "num_add PosInf _ = PosInf"
| "num_add _ PosInf = PosInf"
| "num_add NegInf _ = NegInf"
| "num_add _ NegInf = NegInf"

definition num_sub :: "number \<Rightarrow> number \<Rightarrow> number" where
  "num_sub a b = num_add a (num_neg b)"

fun num_mul :: "number \<Rightarrow> number \<Rightarrow> number" where
  "num_mul (Num a) (Num b) = round64 (a * b)"
| "num_mul NaN _ = NaN"
| "num_mul _ NaN = NaN"
| "num_mul PosInf (Num b) = (if b = 0 then NaN else if 0 < b then PosInf else NegInf)"
| "num_mul NegInf (Num b) = (if b = 0 then NaN else if 0 < b then NegInf else PosInf)"
| "num_mul (Num a) PosInf = (if a = 0 then NaN else if 0 < a then PosInf else NegInf)"
| "num_mul (Num a) NegInf = (if a = 0 then NaN else if 0 < a then NegInf else PosInf)"
| "num_mul PosInf PosInf = PosInf"
| "num_mul PosInf NegInf = NegInf"
| "num_mul NegInf PosInf = NegInf"
| "num_mul NegInf NegInf = PosInf"

fun num_div :: "number \<Rightarrow> number \<Rightarrow> number" where
  "num_div (Num a) (Num b) =
     (if b = 0 then (if a = 0 then NaN else if 0 < a then PosInf else NegInf)
      else round64 (a / b))"
| "num_div NaN _ = NaN"
| "num_div _ NaN = NaN"
| "num_div (Num a) PosInf = Num 0"
| "num_div (Num a) NegInf = Num 0"
| "num_div PosInf (Num b) = (if 0 \<le> b then PosInf else NegInf)"
| "num_div NegInf (Num b) = (if 0 \<le> b then NegInf else PosInf)"
| "num_div PosInf PosInf = NaN"
| "num_div PosInf NegInf = NaN"
| "num_div NegInf PosInf = NaN"
| "num_div NegInf NegInf = NaN"

definition num_pow2 :: "number \<Rightarrow> number" where
  \<comment> \<open>\<^verbatim>\<open>a ** 2\<close>\<close>
  "num_pow2 a = num_mul a a"

fun num_sqrt :: "number \<Rightarrow> number" where
  "num_sqrt (Num a) = (if a < 0 then NaN else round64 (sqrt a))"
| "num_sqrt PosInf = PosInf"
| "num_sqrt NegInf = NaN"
| "num_sqrt NaN = NaN"

fun num_le :: "number \<Rightarrow> number \<Rightarrow> bool" where
  "num_le (Num a) (Num b) = (a \<le> b)"
| "num_le NaN _ = False"
| "num_le _ NaN = False"
| "num_le NegInf _ = True"
| "num_le _ PosInf = True"
| "num_le (Num a) NegInf = False"
| "num_le PosInf (Num b) = False"
| "num_le PosInf NegInf = False"

definition num_ge :: "number \<Rightarrow> number \<Rightarrow> bool" where
  "num_ge a b = num_le b a"

fun num_lt :: "number \<Rightarrow> number \<Rightarrow> bool" where
  "num_lt (Num a) (Num b) = (a < b)"
| "num_lt NaN _ = False"
| "num_lt _ NaN = False"
| "num_lt PosInf _ = False"
| "num_lt _ NegInf = False"
| "num_lt (Num a) PosInf = True"
| "num_lt NegInf (Num b) = True"
| "num_lt NegInf PosInf = True"

section \<open>Arrays\<close>

text \<open>
  \<^verbatim>\<open>Array.prototype.slice(start, end)\<close>: a negative index counts from the end of the
  array, and both indices are clamped to the array.
\<close>

definition array_slice :: "'a list \<Rightarrow> int \<Rightarrow> int \<Rightarrow> 'a list" where
  "array_slice xs start fin =
     (let len = int (length xs);
          k = (if start < 0 then max (len + start) 0 else min start len);
          final = (if fin < 0 then max (len + fin) 0 else min fin len)
      in take (nat (final - k)) (drop (nat k) xs))"

definition array_slice_from :: "'a list \<Rightarrow> int \<Rightarrow> 'a list" where
  \<comment> \<open>\<^verbatim>\<open>slice(start)\<close>: the end defaults to the length\<close>
  "array_slice_from xs start = array_slice xs start (int (length xs))"

section \<open>The indicator: \<^verbatim>\<open>services/geminiService.ts\<close>\<close>

record bands =
  upper :: number
  middle :: number
  lower :: number

text \<open>
  \<^verbatim>\<open>calculateBollingerBands(data, period = 20, stdDev = 2)\<close>.  The period is an
  integer-valued number; \<^verbatim>\<open>null\<close> is \<open>None\<close>.
\<close>

definition calculateBollingerBands :: "number list \<Rightarrow> int \<Rightarrow> number \<Rightarrow> bands option" where
  "calculateBollingerBands data period stdDev =
     (if int (length data) < period then None
      else
        let slice = array_slice_from data (- period);
            sum = foldl (\<lambda>acc val. num_add acc val) (Num 0) slice;
            middle = num_div sum (Num (of_int period));
            variance = num_div
              (foldl (\<lambda>acc val. num_add acc (num_pow2 (num_sub val middle))) (Num 0) slice)
              (Num (of_int period));
            sd = num_sqrt variance
        in Some \<lparr>upper = num_add middle (num_mul sd stdDev),
                 middle = middle,
                 lower = num_sub middle (num_mul sd stdDev)\<rparr>)"

text \<open>
  The quantities the specification names, each computed in binary64 arithmetic:
  the most recent \<open>period\<close> prices, their arithmetic mean (the sum taken from left to
  right, divided by the count), the population variance around that mean (divisor the
  count), and the standard deviation.
\<close>

definition last_prices :: "number list \<Rightarrow> int \<Rightarrow> number list" where
  "last_prices data period = drop (length data - nat period) data"

definition arithmetic_mean :: "number list \<Rightarrow> number" where
  "arithmetic_mean w = num_div (foldl num_add (Num 0) w) (Num (of_nat (length w)))"

definition population_variance :: "number list \<Rightarrow> number" where
  "population_variance w =
     num_div (foldl num_add (Num 0) (map (\<lambda>val. num_pow2 (num_sub val (arithmetic_mean w))) w))
       (Num (of_nat (length w)))"

definition standard_deviation :: "number list \<Rightarrow> number" where
  "standard_deviation w = num_sqrt (population_variance w)"

section \<open>The application: the component \<^verbatim>\<open>App\<close>\<close>

text \<open>
  The component's state: the \<^verbatim>\<open>useState\<close> cells that a poll touches, the
  \<^verbatim>\<open>lastAlertTime\<close> ref, and a log of the effects performed on the outside world
  (notifications shown, errors written to the console).  A poll has no other effect:
  it starts no timer and makes no second request.
\<close>

datatype permission = Default | Granted | Denied | Prompt

record alert =
  message :: string
  time :: string

datatype effect =
    PostMessage string string  \<comment> \<open>\<^verbatim>\<open>SHOW_NOTIFICATION\<close> sent to the service worker: title, body\<close>
  | NewNotification string string  \<comment> \<open>\<^verbatim>\<open>new Notification(title, {body})\<close>\<close>
  | ConsoleError string  \<comment> \<open>\<^verbatim>\<open>console.error("Failed to poll price:", err)\<close>\<close>

record app_state =
  priceHistory :: "number list"
  currentPrice :: "number option"
  bbands :: "bands option"
  alerts :: "alert list"
  lastAlertTime :: int
  effects :: "effect list"

text \<open>
  What one run of \<^verbatim>\<open>pollPrice\<close> reads from its environment: the outcome of
  \<^verbatim>\<open>fetchBitcoinPrice()\<close> (\<open>Inl\<close> the error thrown, \<open>Inr\<close> the price), the permission
  state captured by the callback, \<^verbatim>\<open>Date.now()\<close> in milliseconds, the formatted time
  \<^verbatim>\<open>new Date().toLocaleTimeString()\<close>, whether a service worker controls the page,
  and the locale's number formatting \<^verbatim>\<open>toLocaleString\<close>.
\<close>

record poll_env =
  fetched :: "string + number"
  notificationStatus :: permission
  now :: int
  timeString :: string
  swController :: bool
  toLocaleString :: "number \<Rightarrow> string"

definition COOLDOWN_PERIOD :: int where
  "COOLDOWN_PERIOD = 5 * 60 * 1000"

definition initial_state :: app_state where
  "initial_state = \<lparr>priceHistory = [], currentPrice = None, bbands = None, alerts = [],
     lastAlertTime = 0, effects = []\<rparr>"

definition alertMessage :: "(number \<Rightarrow> string) \<Rightarrow> number \<Rightarrow> bands \<Rightarrow> string option" where
  \<comment> \<open>the value of the variable \<^verbatim>\<open>alertMessage\<close> after the band comparison\<close>
  "alertMessage fmt price newBbands =
     (if num_ge price (upper newBbands) then Some (''Price touched Upper Band at $'' @ fmt price)
      else if num_le price (lower newBbands) then Some (''Price touched Lower Band at $'' @ fmt price)
      else None)"

definition showNotification :: "bool \<Rightarrow> string \<Rightarrow> effect" where
  "showNotification sw body =
     (if sw then PostMessage ''Bitcoin Price Alert!'' body
      else NewNotification ''Bitcoin Price Alert!'' body)"

definition pollPrice :: "poll_env \<Rightarrow> app_state \<Rightarrow> app_state" where
  "pollPrice env s =
     (case fetched env of
        Inl err \<Rightarrow> s\<lparr>effects := effects s @ [ConsoleError err]\<rparr>
      | Inr price \<Rightarrow>
          let newHistory = array_slice_from (priceHistory s) (- 19) @ [price];
              newBbands = calculateBollingerBands newHistory 20 (Num 2);
              s1 = s\<lparr>bbands := newBbands\<rparr>;
              s2 = (case newBbands of
                      None \<Rightarrow> s1
                    | Some b \<Rightarrow>
                        if notificationStatus env = Granted then
                          if now env - lastAlertTime s1 > COOLDOWN_PERIOD then
                            (case alertMessage (toLocaleString env) price b of
                               None \<Rightarrow> s1
                             | Some msg \<Rightarrow>
                                 s1\<lparr>effects := effects s1 @ [showNotification (swController env) msg],
                                    lastAlertTime := now env,
                                    alerts := \<lparr>message = msg, time = timeString env\<rparr>
                                              # array_slice (alerts s1) 0 9\<rparr>)
                          else s1
                        else s1)
          in s2\<lparr>priceHistory := newHistory, currentPrice := Some price\<rparr>)"

fun is_notification :: "effect \<Rightarrow> bool" where
  "is_notification (PostMessage title body) = True"
| "is_notification (NewNotification title body) = True"
| "is_notification (ConsoleError err) = False"

definition notifications :: "app_state \<Rightarrow> effect list" where
  \<comment> \<open>the notifications dispatched so far\<close>
  "notifications s = filter is_notification (effects s)"

definition run_polls :: "poll_env list \<Rightarrow> app_state \<Rightarrow> app_state" where
  \<comment> \<open>the polls of the timer and of the manual trigger, one after the other\<close>
  "run_polls envs s = foldl (\<lambda>st env. pollPrice env st) s envs"

section \<open>Example inputs\<close>

text \<open>
  States and polls on which the theorems below are instantiated: a history of nineteen
  prices of 10; a full state (twenty prices, the oldest being 5, and ten alerts); and a
  history around 10 with which a twentieth price of 8 lies exactly on the lower band.
\<close>

definition example_env :: "(string + number) \<Rightarrow> permission \<Rightarrow> int \<Rightarrow> poll_env" where
  "example_env result perm t =
     \<lparr>fetched = result, notificationStatus = perm, now = t, timeString = ''12:00:00'',
      swController = False,
      toLocaleString = (\<lambda>n. if n = Num 8 then ''8'' else ''10'')\<rparr>"

definition flat_state :: app_state where
  "flat_state = initial_state\<lparr>priceHistory := replicate 19 (Num 10)\<rparr>"

definition full_state :: app_state where
  "full_state = initial_state\<lparr>priceHistory := Num 5 # replicate 19 (Num 10),
     alerts := replicate 10 \<lparr>message = ''Price touched Lower Band at $8'', time = ''11:00:00''\<rparr>\<rparr>"

definition mixed_state :: app_state where
  "mixed_state = initial_state\<lparr>priceHistory :=
     [Num 11, Num 11, Num 11, Num 11, Num 11, Num 11, Num 11, Num 11, Num 11,
      Num 9, Num 9, Num 9, Num 9, Num 9, Num 9, Num 9,
      Num 10, Num 10, Num 10]\<rparr>"
section \<open>Binary exponents\<close>

lemma pw_less_iff: "(2::real) powi a < 2 powi b \<longleftrightarrow> a < b"
proof
  assume "(2::real) powi a < 2 powi b"
  show "a < b"
  proof (rule ccontr)
    assume "\<not> a < b"
    then have "b \<le> a" by simp
    then have "(2::real) powi b \<le> 2 powi a" by (intro power_int_increasing) simp_all
    with \<open>(2::real) powi a < 2 powi b\<close> show False by simp
  qed
next
  assume "a < b"
  then show "(2::real) powi a < 2 powi b" by (intro power_int_strict_increasing) simp_all
qed

lemma pw_le_iff: "(2::real) powi a \<le> 2 powi b \<longleftrightarrow> a \<le> b"
  using pw_less_iff [of b a] by (simp add: not_less [symmetric])

lemma pw_pos: "0 < (2::real) powi a"
  by simp

lemma pw_double: "(2::real) powi (a + 1) = 2 * 2 powi a"
  by (simp add: power_int_add)

lemma binade_exists:
  fixes x :: real
  assumes "x \<noteq> 0"
  defines "e0 \<equiv> (if 1 \<le> \<bar>x\<bar> then bitlen \<lfloor>\<bar>x\<bar>\<rfloor> - 1 else - bitlen (\<lceil>1 / \<bar>x\<bar>\<rceil> - 1))"
  shows "2 powi e0 \<le> \<bar>x\<bar> \<and> \<bar>x\<bar> < 2 powi (e0 + 1)"
proof (cases "1 \<le> \<bar>x\<bar>")
  case True
  define n where "n = \<lfloor>\<bar>x\<bar>\<rfloor>"
  have n: "0 < n" using True by (simp add: n_def)
  have e0: "e0 = bitlen n - 1" using True by (simp add: e0_def n_def)
  from bitlen_bounds [OF n] have lo: "2 ^ nat (bitlen n - 1) \<le> n" and hi: "n < 2 ^ nat (bitlen n)"
    by simp_all
  have b1: "1 \<le> bitlen n" using n by (simp add: bitlen_alt_def)
  have "2 powi e0 = (2::real) ^ nat (bitlen n - 1)"
    using b1 by (simp add: e0 power_int_nonneg_exp)
  also have "\<dots> = of_int (2 ^ nat (bitlen n - 1))" by simp
  also have "\<dots> \<le> of_int n" using lo by (simp only: of_int_le_iff)
  also have "\<dots> \<le> \<bar>x\<bar>" by (simp add: n_def)
  finally have A: "2 powi e0 \<le> \<bar>x\<bar>" .
  have "n + 1 \<le> 2 ^ nat (bitlen n)" using hi by simp
  then have "real_of_int (n + 1) \<le> of_int (2 ^ nat (bitlen n))" by (simp only: of_int_le_iff)
  moreover have "\<bar>x\<bar> < real_of_int (n + 1)" by (simp add: n_def)
  ultimately have "\<bar>x\<bar> < of_int (2 ^ nat (bitlen n))" by simp
  also have "\<dots> = (2::real) ^ nat (bitlen n)" by simp
  also have "\<dots> = 2 powi (e0 + 1)" using b1 by (simp add: e0 power_int_nonneg_exp)
  finally show ?thesis using A by simp
next
  case False
  define y where "y = 1 / \<bar>x\<bar>"
  have xpos: "0 < \<bar>x\<bar>" using assms by simp
  have y1: "1 < y" using False xpos by (simp add: y_def)
  define m where "m = \<lceil>y\<rceil> - 1"
  have m: "0 < m" using y1 by (simp add: m_def)
  have e0: "e0 = - bitlen m" using False by (simp add: e0_def m_def y_def)
  from bitlen_bounds [OF m] have lo: "2 ^ nat (bitlen m - 1) \<le> m" and hi: "m < 2 ^ nat (bitlen m)"
    by simp_all
  have b1: "1 \<le> bitlen m" using m by (simp add: bitlen_alt_def)
  have my: "of_int m < y" unfolding m_def by linarith
  have ym: "y \<le> of_int (m + 1)" unfolding m_def by simp
  have "m + 1 \<le> 2 ^ nat (bitlen m)" using hi by simp
  then have "real_of_int (m + 1) \<le> of_int (2 ^ nat (bitlen m))" by (simp only: of_int_le_iff)
  with ym have "y \<le> (2::real) ^ nat (bitlen m)" by simp
  then have yhi: "y \<le> 2 powi (bitlen m)" using b1 by (simp add: power_int_nonneg_exp)
  have "(2::real) ^ nat (bitlen m - 1) = of_int (2 ^ nat (bitlen m - 1))" by simp
  also have "\<dots> \<le> of_int m" using lo by (simp only: of_int_le_iff)
  also have "\<dots> < y" by (rule my)
  finally have "(2::real) ^ nat (bitlen m - 1) < y" .
  then have ylo: "2 powi (bitlen m - 1) < y" using b1 by (simp add: power_int_nonneg_exp)
  have x: "\<bar>x\<bar> = 1 / y" using xpos by (simp add: y_def)
  have ypos: "0 < y" using y1 by simp
  have "2 powi e0 = 1 / (2::real) powi (bitlen m)" by (simp add: e0 power_int_minus_divide)
  also have "\<dots> \<le> 1 / y" using yhi ypos by (simp add: frac_le)
  finally have A: "2 powi e0 \<le> \<bar>x\<bar>" by (simp add: x)
  have "1 / y < 1 / (2::real) powi (bitlen m - 1)" using ylo by (simp add: frac_less2)
  also have "\<dots> = 2 powi (- (bitlen m - 1))" by (simp only: power_int_minus_divide)
  also have "- (bitlen m - 1) = e0 + 1" by (simp add: e0)
  finally show ?thesis using A by (simp add: x)
qed

lemma expo_ge: "- 1022 \<le> expo x"
  by (simp add: expo_def)

lemma expo_minus: "expo (- x) = expo x"
  by (simp add: expo_def)

lemma abs_less_expo: "\<bar>x\<bar> < 2 powi (expo x + 1)"
proof (cases "x = 0")
  case True
  then show ?thesis by simp
next
  case False
  define e0 where "e0 = (if 1 \<le> \<bar>x\<bar> then bitlen \<lfloor>\<bar>x\<bar>\<rfloor> - 1 else - bitlen (\<lceil>1 / \<bar>x\<bar>\<rceil> - 1))"
  have e: "expo x = max (- 1022) e0" using False by (simp add: expo_def e0_def)
  from binade_exists [OF False] have "\<bar>x\<bar> < 2 powi (e0 + 1)" by (simp add: e0_def)
  also have "\<dots> \<le> 2 powi (expo x + 1)" by (simp add: pw_le_iff e)
  finally show ?thesis .
qed

lemma expo_normal:
  assumes "- 1022 < expo x"
  shows "2 powi (expo x) \<le> \<bar>x\<bar>"
proof -
  have nz: "x \<noteq> 0" using assms by (auto simp: expo_def)
  define e0 where "e0 = (if 1 \<le> \<bar>x\<bar> then bitlen \<lfloor>\<bar>x\<bar>\<rfloor> - 1 else - bitlen (\<lceil>1 / \<bar>x\<bar>\<rceil> - 1))"
  have e: "expo x = max (- 1022) e0" using nz by (simp add: expo_def e0_def)
  with assms have "expo x = e0" by simp
  with binade_exists [OF nz] show ?thesis by (simp add: e0_def)
qed

lemma expo_ge_I: "2 powi e \<le> \<bar>x\<bar> \<Longrightarrow> e \<le> expo x"
proof -
  assume "2 powi e \<le> \<bar>x\<bar>"
  also have "\<bar>x\<bar> < 2 powi (expo x + 1)" by (rule abs_less_expo)
  finally show ?thesis by (simp add: pw_less_iff)
qed

lemma expo_le_I:
  assumes "\<bar>x\<bar> < 2 powi (e + 1)" and "- 1022 \<le> e"
  shows "expo x \<le> e"
proof (cases "- 1022 < expo x")
  case True
  from expo_normal [OF True] assms(1) have "(2::real) powi (expo x) < 2 powi (e + 1)" by simp
  then show ?thesis by (simp add: pw_less_iff)
next
  case False
  with assms(2) show ?thesis by simp
qed

lemma expo_mono:
  assumes "\<bar>x\<bar> \<le> \<bar>y\<bar>"
  shows "expo x \<le> expo y"
proof (cases "- 1022 < expo x")
  case True
  from expo_normal [OF True] assms have "2 powi (expo x) \<le> \<bar>y\<bar>" by simp
  then show ?thesis by (rule expo_ge_I)
next
  case False
  then show ?thesis using expo_ge [of y] by simp
qed

lemma ulp_pos: "0 < ulp x"
  by (simp add: ulp_def)

lemma ulp_minus: "ulp (- x) = ulp x"
  by (simp add: ulp_def expo_minus)

lemma ulp_mono: "\<bar>x\<bar> \<le> \<bar>y\<bar> \<Longrightarrow> ulp x \<le> ulp y"
  by (simp add: ulp_def pw_le_iff expo_mono)

section \<open>Rounding to the nearest binary64 value\<close>

lemma rne_error: "\<bar>of_int (rne t) - t\<bar> \<le> 1 / 2"
proof -
  have "of_int \<lfloor>t\<rfloor> \<le> t" "t < of_int \<lfloor>t\<rfloor> + 1" by linarith+
  then show ?thesis by (auto simp: rne_def Let_def)
qed

lemma rne_of_int: "rne (of_int n) = n"
  by (simp add: rne_def)

lemma rne_mono:
  assumes "s \<le> t"
  shows "rne s \<le> rne t"
proof (rule ccontr)
  assume "\<not> rne s \<le> rne t"
  then have gt: "rne t + 1 \<le> rne s" by simp
  then have gtr: "real_of_int (rne t) + 1 \<le> of_int (rne s)" by linarith
  from rne_error [of s] have a: "of_int (rne s) \<le> s + 1 / 2" by linarith
  from rne_error [of t] have b: "t - 1 / 2 \<le> of_int (rne t)" by linarith
  from a b gtr assms have st: "s = t" by linarith
  with gt show False by simp
qed

lemma rne_minus: "rne (- t) = - rne t"
proof (cases "t = of_int \<lfloor>t\<rfloor>")
  case True
  then obtain n where "t = of_int n" ..
  then have "rne (- t) = rne (of_int (- n))" by simp
  also have "\<dots> = - n" by (simp only: rne_of_int)
  finally show ?thesis by (simp add: rne_of_int \<open>t = of_int n\<close>)
next
  case False
  then have lt: "of_int \<lfloor>t\<rfloor> < t" by linarith
  have ut: "t < of_int \<lfloor>t\<rfloor> + 1" by linarith
  have fl: "\<lfloor>- t\<rfloor> = - \<lfloor>t\<rfloor> - 1"
  proof (rule floor_unique)
    have "real_of_int (- \<lfloor>t\<rfloor> - 1) = - of_int \<lfloor>t\<rfloor> - 1" by simp
    also have "\<dots> \<le> - t" using ut by linarith
    finally show "real_of_int (- \<lfloor>t\<rfloor> - 1) \<le> - t" .
    have "- t < - real_of_int \<lfloor>t\<rfloor>" using lt by linarith
    also have "\<dots> = real_of_int (- \<lfloor>t\<rfloor> - 1) + 1" by simp
    finally show "- t < real_of_int (- \<lfloor>t\<rfloor> - 1) + 1" .
  qed
  show ?thesis using lt ut by (auto simp: rne_def Let_def fl)
qed

lemma rne_nonneg: "0 \<le> t \<Longrightarrow> 0 \<le> rne t"
  using rne_mono [of 0 t] rne_of_int [of 0] by simp

lemma fl_zero: "fl 0 = 0"
  using rne_of_int [of 0] by (simp add: fl_def)

lemma fl_minus: "fl (- x) = - fl x"
  by (simp add: fl_def ulp_minus rne_minus)

lemma fl_nonneg: "0 \<le> x \<Longrightarrow> 0 \<le> fl x"
  using ulp_pos [of x] by (simp add: fl_def rne_nonneg)

lemma fl_error: "\<bar>fl x - x\<bar> \<le> ulp x / 2"
proof -
  have u: "0 < ulp x" by (rule ulp_pos)
  have "fl x - x = (of_int (rne (x / ulp x)) - x / ulp x) * ulp x"
    using u by (simp add: fl_def field_simps)
  then have "\<bar>fl x - x\<bar> = \<bar>of_int (rne (x / ulp x)) - x / ulp x\<bar> * ulp x"
    using u by (simp add: abs_mult)
  also have "\<dots> \<le> (1 / 2) * ulp x"
    using u rne_error [of "x / ulp x"] by (intro mult_right_mono) simp_all
  finally show ?thesis by simp
qed

text \<open>The scaled significand lies in the 53-bit range.\<close>

lemma ulp_expo: "ulp x * 2 ^ 53 = 2 powi (expo x + 1)"
proof -
  have "expo x + 1 = (expo x - 52) + 53" by simp
  then have "(2::real) powi (expo x + 1) = 2 powi ((expo x - 52) + 53)" by (rule arg_cong)
  also have "\<dots> = 2 powi (expo x - 52) * 2 powi 53" by (rule power_int_add) simp
  finally show ?thesis by (simp add: ulp_def)
qed

lemma ulp_expo': "ulp x * 2 ^ 52 = 2 powi (expo x)"
proof -
  have "expo x = (expo x - 52) + 52" by simp
  then have "(2::real) powi (expo x) = 2 powi ((expo x - 52) + 52)" by (rule arg_cong)
  also have "\<dots> = 2 powi (expo x - 52) * 2 powi 52" by (rule power_int_add) simp
  finally show ?thesis by (simp add: ulp_def)
qed

lemma scaled_less: "\<bar>x\<bar> / ulp x < 2 ^ 53"
proof -
  have "\<bar>x\<bar> < ulp x * 2 ^ 53" using abs_less_expo [of x] by (simp only: ulp_expo)
  then show ?thesis using ulp_pos [of x] by (simp add: field_simps)
qed

lemma scaled_ge: "- 1022 < expo x \<Longrightarrow> 2 ^ 52 \<le> \<bar>x\<bar> / ulp x"
proof -
  assume "- 1022 < expo x"
  then have "ulp x * 2 ^ 52 \<le> \<bar>x\<bar>" using expo_normal [of x] by (simp only: ulp_expo')
  then show ?thesis using ulp_pos [of x] by (simp add: field_simps)
qed

lemma rne_scaled_le:
  assumes "0 \<le> x"
  shows "rne (x / ulp x) \<le> 2 ^ 53"
proof -
  have "x / ulp x \<le> of_int (2 ^ 53)" using scaled_less [of x] assms by simp
  from rne_mono [OF this] show ?thesis by (simp only: rne_of_int)
qed

lemma rne_scaled_ge:
  assumes "0 \<le> x" and "- 1022 < expo x"
  shows "2 ^ 52 \<le> rne (x / ulp x)"
proof -
  have "of_int (2 ^ 52) \<le> x / ulp x" using scaled_ge [OF assms(2)] assms(1) by simp
  from rne_mono [OF this] show ?thesis by (simp only: rne_of_int)
qed

lemma fl_le_binade:
  assumes "0 \<le> x"
  shows "fl x \<le> 2 powi (expo x + 1)"
proof -
  have "real_of_int (rne (x / ulp x)) \<le> of_int (2 ^ 53)"
    using rne_scaled_le [OF assms] by (simp only: of_int_le_iff)
  then have "fl x \<le> 2 ^ 53 * ulp x"
    unfolding fl_def using ulp_pos [of x] by (intro mult_right_mono) simp_all
  then show ?thesis using ulp_expo [of x] by (simp add: mult.commute)
qed

lemma fl_ge_binade:
  assumes "0 \<le> x" and "- 1022 < expo x"
  shows "2 powi (expo x) \<le> fl x"
proof -
  have "real_of_int (2 ^ 52) \<le> of_int (rne (x / ulp x))"
    using rne_scaled_ge [OF assms] by (simp only: of_int_le_iff)
  then have "2 ^ 52 * ulp x \<le> fl x"
    unfolding fl_def using ulp_pos [of x] by (intro mult_right_mono) simp_all
  then show ?thesis using ulp_expo' [of x] by (simp add: mult.commute)
qed

lemma fl_mono_nonneg:
  assumes "0 \<le> x" and "x \<le> y"
  shows "fl x \<le> fl y"
proof (cases "expo x = expo y")
  case True
  then have u: "ulp x = ulp y" by (simp add: ulp_def)
  have "x / ulp y \<le> y / ulp y" using assms ulp_pos [of y] by (simp add: divide_right_mono)
  then have "rne (x / ulp y) \<le> rne (y / ulp y)" by (rule rne_mono)
  then have "real_of_int (rne (x / ulp y)) \<le> of_int (rne (y / ulp y))" by (simp only: of_int_le_iff)
  then show ?thesis unfolding fl_def u using ulp_pos [of y] by (intro mult_right_mono) simp_all
next
  case False
  have "expo x \<le> expo y" using assms by (intro expo_mono) simp
  with False have lt: "expo x < expo y" by simp
  then have n: "- 1022 < expo y" using expo_ge [of x] by simp
  have y0: "0 \<le> y" using assms by simp
  have "fl x \<le> 2 powi (expo x + 1)" by (rule fl_le_binade [OF assms(1)])
  also have "\<dots> \<le> 2 powi (expo y)" using lt by (simp add: pw_le_iff)
  also have "\<dots> \<le> fl y" by (rule fl_ge_binade [OF y0 n])
  finally show ?thesis .
qed

lemma fl_mono:
  assumes "x \<le> y"
  shows "fl x \<le> fl y"
proof (cases "0 \<le> x")
  case True
  then show ?thesis using assms by (rule fl_mono_nonneg)
next
  case False
  show ?thesis
  proof (cases "0 \<le> y")
    case True
    have "fl x = - fl (- x)" by (simp add: fl_minus)
    also have "\<dots> \<le> 0" using fl_nonneg [of "- x"] False by simp
    also have "\<dots> \<le> fl y" using True by (rule fl_nonneg)
    finally show ?thesis .
  next
    case False
    then have "fl (- y) \<le> fl (- x)" using assms by (intro fl_mono_nonneg) simp_all
    then show ?thesis by (simp add: fl_minus)
  qed
qed

subsection \<open>Values that rounding leaves alone\<close>

lemma fl_exact_aux:
  assumes k: "\<bar>k\<bar> < 2 ^ 53" and q: "- 1074 \<le> q"
  shows "fl (of_int k * 2 powi q) = of_int k * 2 powi q"
proof -
  define y :: real where "y = of_int k * 2 powi q"
  have "\<bar>y\<bar> = of_int \<bar>k\<bar> * 2 powi q" by (simp add: y_def abs_mult)
  also have "\<dots> < of_int (2 ^ 53) * 2 powi q"
    using k by (intro mult_strict_right_mono) (simp_all only: of_int_less_iff pw_pos)
  also have "\<dots> = 2 powi q * 2 powi 53" by simp
  also have "\<dots> = 2 powi (q + 53)" by (rule power_int_add [symmetric]) simp
  also have "q + 53 = (q + 52) + 1" by simp
  finally have "\<bar>y\<bar> < 2 powi ((q + 52) + 1)" .
  then have e: "expo y \<le> q + 52" using q by (intro expo_le_I) simp_all
  define d where "d = nat (q + 52 - expo y)"
  define u where "u = ulp y"
  have u: "0 < u" by (simp add: u_def ulp_pos)
  have qd: "q = (expo y - 52) + int d" using e by (simp add: d_def)
  have "(2::real) powi ((expo y - 52) + int d) = 2 powi (expo y - 52) * 2 powi (int d)"
    by (rule power_int_add) simp
  then have pq: "(2::real) powi q = u * 2 ^ d" by (simp add: ulp_def u_def qd [symmetric])
  have yk: "y = of_int k * (u * 2 ^ d)" by (simp only: y_def pq)
  have "y / u = of_int (k * 2 ^ d)" using u by (simp add: yk)
  then have "rne (y / u) = k * 2 ^ d" by (simp only: rne_of_int)
  then have "fl y = of_int (k * 2 ^ d) * u" by (simp add: fl_def u_def)
  also have "\<dots> = y" by (simp add: yk)
  finally show ?thesis by (simp only: y_def)
qed

lemma fl_exact:
  assumes k: "\<bar>k\<bar> \<le> 2 ^ 53" and q: "- 1074 \<le> q"
  shows "fl (of_int k * 2 powi q) = of_int k * 2 powi q"
proof (cases "\<bar>k\<bar> < 2 ^ 53")
  case True
  then show ?thesis using q by (rule fl_exact_aux)
next
  case False
  with k have "\<bar>k\<bar> = 2 ^ 53" by simp
  then consider "k = 2 ^ 53" | "k = - (2 ^ 53)" by linarith
  then have "\<exists>j. \<bar>j\<bar> < 2 ^ 53 \<and> k = 2 * j"
  proof cases
    case 1
    then have "\<bar>2 ^ 52 :: int\<bar> < 2 ^ 53 \<and> k = 2 * 2 ^ 52" by simp
    then show ?thesis ..
  next
    case 2
    then have "\<bar>- (2 ^ 52) :: int\<bar> < 2 ^ 53 \<and> k = 2 * (- (2 ^ 52))" by simp
    then show ?thesis ..
  qed
  then obtain j where j: "\<bar>j\<bar> < 2 ^ 53" and kj: "k = 2 * j" by blast
  have "real_of_int k * 2 powi q = of_int j * (2 * 2 powi q)" by (simp add: kj)
  also have "\<dots> = of_int j * 2 powi (q + 1)" by (simp only: pw_double)
  finally have eq: "real_of_int k * 2 powi q = of_int j * 2 powi (q + 1)" .
  have "- 1074 \<le> q + 1" using q by simp
  from fl_exact_aux [OF j this] show ?thesis by (simp only: eq)
qed

lemma rne_scaled_abs: "\<bar>rne (x / ulp x)\<bar> \<le> 2 ^ 53"
proof -
  define t where "t = x / ulp x"
  have "\<bar>t\<bar> = \<bar>x\<bar> / ulp x" using ulp_pos [of x] by (simp add: t_def)
  then have "\<bar>t\<bar> < 2 ^ 53" using scaled_less [of x] by simp
  then have "- (2 ^ 53) \<le> t" and "t \<le> 2 ^ 53" by linarith+
  then have a: "of_int (- (2 ^ 53)) \<le> t" and b: "t \<le> of_int (2 ^ 53)" by simp_all
  from rne_mono [OF a] rne_mono [OF b] have "- (2 ^ 53) \<le> rne t" and "rne t \<le> 2 ^ 53"
    by (simp_all only: rne_of_int)
  then show ?thesis by (simp add: t_def)
qed

lemma fl_fl: "fl (fl x) = fl x"
proof -
  have "- 1074 \<le> expo x - 52" using expo_ge [of x] by simp
  from fl_exact [OF rne_scaled_abs this, of x] show ?thesis by (simp add: fl_def ulp_def)
qed

lemma round64_Num: "round64 x = Num y \<longleftrightarrow> y = fl x \<and> \<bar>fl x\<bar> < 2 powi 1024"
  by (auto simp: round64_def Let_def)

lemma round64_PosInf: "round64 x = PosInf \<longleftrightarrow> 2 powi 1024 \<le> fl x"
  by (auto simp: round64_def Let_def)

lemma round64_NegInf: "round64 x = NegInf \<longleftrightarrow> fl x \<le> - (2 powi 1024)"
proof -
  have "(0::real) < 2 powi 1024" by simp
  then show ?thesis by (auto simp: round64_def Let_def)
qed

lemma round64_not_NaN: "round64 x \<noteq> NaN"
  by (simp add: round64_def Let_def)

lemma is_double_iff: "is_double x \<longleftrightarrow> fl x = x \<and> \<bar>x\<bar> < 2 powi 1024"
  by (auto simp: is_double_def round64_Num)

lemma round64_is_double: "round64 x = Num y \<Longrightarrow> is_double y"
  by (simp add: round64_Num is_double_iff fl_fl)

lemma is_double_zero: "is_double 0"
  by (simp add: is_double_iff fl_zero)

lemma is_double_minus: "is_double (- x) \<longleftrightarrow> is_double x"
  by (auto simp: is_double_iff fl_minus)

lemma is_double_of_int:
  assumes "\<bar>n\<bar> \<le> 2 ^ 53"
  shows "is_double (of_int n)"
proof -
  have "fl (of_int n * 2 powi 0) = of_int n * 2 powi 0" using assms by (intro fl_exact) simp_all
  then have f: "fl (of_int n) = of_int n" by simp
  have "real_of_int \<bar>n\<bar> \<le> of_int (2 ^ 53)" using assms by (simp only: of_int_le_iff)
  also have "\<dots> < 2 ^ 1024" by simp
  finally have "\<bar>real_of_int n\<bar> < 2 powi 1024" by simp
  with f show ?thesis by (simp add: is_double_iff)
qed

lemma round64_of_int: "\<bar>n\<bar> \<le> 2 ^ 53 \<Longrightarrow> round64 (of_int n) = Num (of_int n)"
  using is_double_of_int [of n] by (simp add: is_double_def)

lemma round64_numeral:
  "numeral w \<le> (9007199254740992::int) \<Longrightarrow> round64 (numeral w) = Num (numeral w)"
  using round64_of_int [of "numeral w"] by simp

lemma round64_neg_numeral:
  "numeral w \<le> (9007199254740992::int) \<Longrightarrow> round64 (- numeral w) = Num (- numeral w)"
  using round64_of_int [of "- numeral w"] by simp

lemma round64_zero: "round64 0 = Num 0"
  using is_double_zero by (simp add: is_double_def)

lemma round64_one: "round64 1 = Num 1"
  using round64_of_int [of 1] by simp

text \<open>Rounding never crosses a binary64 value.\<close>

lemma fl_ge_double: "is_double m \<Longrightarrow> m \<le> x \<Longrightarrow> m \<le> fl x"
  using fl_mono [of m x] by (simp add: is_double_iff)

lemma fl_le_double: "is_double m \<Longrightarrow> x \<le> m \<Longrightarrow> fl x \<le> m"
  using fl_mono [of x m] by (simp add: is_double_iff)

lemma ulp_fl: "ulp x \<le> ulp (fl x)"
proof (cases "- 1022 < expo x")
  case False
  then have "expo x \<le> expo (fl x)" using expo_ge [of "fl x"] by simp
  then show ?thesis by (simp add: ulp_def pw_le_iff)
next
  case True
  have "2 powi (expo x) \<le> \<bar>fl x\<bar>"
  proof (cases "0 \<le> x")
    case True
    with fl_ge_binade [OF True \<open>- 1022 < expo x\<close>] show ?thesis by simp
  next
    case False
    then have "0 \<le> - x" by simp
    from fl_ge_binade [OF this] True have "2 powi (expo x) \<le> fl (- x)" by (simp add: expo_minus)
    then show ?thesis by (simp add: fl_minus)
  qed
  then have "expo x \<le> expo (fl x)" by (rule expo_ge_I)
  then show ?thesis by (simp add: ulp_def pw_le_iff)
qed

lemma fl_error_result: "\<bar>fl x - x\<bar> \<le> ulp (fl x) / 2"
  using fl_error [of x] ulp_fl [of x] by simp

subsection \<open>Evaluating a rounding\<close>

lemma rne_nearest:
  assumes "\<bar>t - of_int k\<bar> < 1 / 2 \<or> (\<bar>t - of_int k\<bar> = 1 / 2 \<and> even k)"
  shows "rne t = k"
proof -
  from assms consider (near) "\<bar>t - of_int k\<bar> < 1 / 2"
    | (up) "t = of_int k + 1 / 2" "even k" | (down) "t = of_int k - 1 / 2" "even k"
    by (auto simp: abs_if split: if_splits)
  then show ?thesis
  proof cases
    case near
    with rne_error [of t] have "\<bar>real_of_int (rne t) - of_int k\<bar> < 1" by linarith
    then have "\<bar>real_of_int (rne t - k)\<bar> < 1" by simp
    then have "\<bar>rne t - k\<bar> < 1" by linarith
    then show ?thesis by simp
  next
    case up
    have "\<lfloor>t\<rfloor> = k" unfolding up(1) by (rule floor_unique) simp_all
    then show ?thesis using up by (simp add: rne_def Let_def)
  next
    case down
    have "\<lfloor>t\<rfloor> = k - 1" unfolding down(1) by (rule floor_unique) simp_all
    then show ?thesis using down by (simp add: rne_def Let_def)
  qed
qed

lemma round64_eval:
  assumes e: "- 1022 \<le> e" "e \<le> 1022"
    and lo: "e = - 1022 \<or> 2 powi e \<le> \<bar>x\<bar>"
    and hi: "\<bar>x\<bar> < 2 powi (e + 1)"
    and k: "\<bar>x / 2 powi (e - 52) - of_int k\<bar> < 1 / 2
          \<or> (\<bar>x / 2 powi (e - 52) - of_int k\<bar> = 1 / 2 \<and> even k)"
    and y: "y = of_int k * 2 powi (e - 52)"
  shows "round64 x = Num y"
proof -
  have "expo x \<le> e" using hi e(1) by (rule expo_le_I)
  moreover have "e \<le> expo x"
  proof (cases "e = - 1022")
    case True
    then show ?thesis by (simp add: expo_ge)
  next
    case False
    with lo show ?thesis by (intro expo_ge_I) simp
  qed
  ultimately have ex: "expo x = e" by simp
  then have u: "ulp x = 2 powi (e - 52)" by (simp add: ulp_def)
  have "rne (x / ulp x) = k" unfolding u using k by (rule rne_nearest)
  then have f: "fl x = y" by (simp add: fl_def u y)
  have "\<bar>fl x\<bar> \<le> 2 powi (expo x + 1)"
  proof (cases "0 \<le> x")
    case True
    with fl_le_binade [OF True] fl_nonneg [OF True] show ?thesis by simp
  next
    case False
    then have n: "0 \<le> - x" by simp
    from fl_le_binade [OF n] fl_nonneg [OF n] show ?thesis by (simp add: fl_minus expo_minus)
  qed
  also have "\<dots> \<le> 2 powi 1023" using e(2) by (simp only: pw_le_iff ex)
  also have "\<dots> < 2 powi 1024" by (simp only: pw_less_iff)
  finally show ?thesis by (simp add: round64_Num f)
qed

lemma sqrt_eval: "0 \<le> y \<Longrightarrow> y * y = x \<Longrightarrow> sqrt x = y"
  by (rule real_sqrt_unique) (simp_all add: power2_eq_square)

lemma round64_minus_one: "round64 (- 1) = Num (- 1)"
  using round64_of_int [of "- 1"] by simp

lemma round64_pow2:
  assumes "- 1074 \<le> q" and "q \<le> 1023"
  shows "round64 (2 powi q) = Num (2 powi q)"
proof -
  have "fl (of_int 1 * 2 powi q) = of_int 1 * 2 powi q" using assms(1) by (intro fl_exact) simp_all
  then have f: "fl (2 powi q) = 2 powi q" by simp
  have "(2::real) powi q < 2 powi 1024" using assms(2) by (simp only: pw_less_iff)
  then show ?thesis by (simp add: round64_Num f)
qed

lemma round64_overflow: "round64 (2 powi 1024) = PosInf"
proof -
  have "fl (of_int 1 * 2 powi 1024) = of_int 1 * 2 powi 1024" by (intro fl_exact) simp_all
  then have "fl (2 powi 1024) = 2 powi 1024" by simp
  then show ?thesis by (simp only: round64_PosInf)
qed

lemmas round64_small =
  round64_numeral round64_neg_numeral round64_zero round64_one round64_minus_one

section \<open>The window of the indicator\<close>

lemma array_slice_from_neg:
  "0 < n \<Longrightarrow> array_slice_from xs (- int n) = drop (length xs - n) xs"
  by (auto simp: array_slice_from_def array_slice_def Let_def max_def nat_diff_distrib')

lemma array_slice_from_19: "array_slice_from xs (- 19) = drop (length xs - 19) xs"
  using array_slice_from_neg [of 19 xs] by simp

lemma array_slice_0_9: "array_slice xs 0 9 = take 9 xs"
  by (auto simp: array_slice_def Let_def min_def)

lemma foldl_squares:
  "foldl (\<lambda>acc val. num_add acc (f val)) a xs = foldl num_add a (map f xs)"
  by (induction xs arbitrary: a) simp_all

lemma array_slice_from_last_prices:
  assumes "1 \<le> period" and "period \<le> int (length data)"
  shows "array_slice_from data (- period) = last_prices data period"
    and "length (last_prices data period) = nat period"
proof -
  have "array_slice_from data (- int (nat period)) = drop (length data - nat period) data"
    using assms by (intro array_slice_from_neg) simp
  then show "array_slice_from data (- period) = last_prices data period"
    using assms by (simp add: last_prices_def)
  show "length (last_prices data period) = nat period"
    using assms by (simp add: last_prices_def)
qed

lemma population_variance_fold:
  "population_variance w =
     num_div (foldl (\<lambda>acc val. num_add acc (num_pow2 (num_sub val (arithmetic_mean w)))) (Num 0) w)
       (Num (of_nat (length w)))"
  by (simp only: population_variance_def
      foldl_squares [where f = "\<lambda>val. num_pow2 (num_sub val (arithmetic_mean w))"])

lemma calculateBollingerBands_window:
  assumes "1 \<le> period" and "period \<le> int (length data)"
  defines "w \<equiv> last_prices data period"
  shows "calculateBollingerBands data period stdDev =
     Some \<lparr>upper = num_add (arithmetic_mean w) (num_mul (standard_deviation w) stdDev),
           middle = arithmetic_mean w,
           lower = num_sub (arithmetic_mean w) (num_mul (standard_deviation w) stdDev)\<rparr>"
proof -
  have p: "real (length w) = real_of_int period"
    using assms(1,2) by (simp add: w_def array_slice_from_last_prices)
  have sl: "array_slice_from data (- period) = w"
    using assms(1,2) by (simp add: w_def array_slice_from_last_prices)
  have lt: "\<not> int (length data) < period" using assms(2) by simp
  have m: "num_div (foldl (\<lambda>acc val. num_add acc val) (Num 0) w) (Num (real_of_int period))
    = arithmetic_mean w"
    by (simp only: arithmetic_mean_def p)
  show ?thesis
    unfolding calculateBollingerBands_def Let_def sl m
      population_variance_fold standard_deviation_def p
    using lt by simp
qed

subsection \<open>Flat windows\<close>

lemma foldl_flat:
  assumes "\<forall>j\<in>{1..n}. is_double (real j * v)"
  shows "m \<le> n \<Longrightarrow> foldl num_add (Num 0) (replicate m (Num v)) = Num (real m * v)"
proof (induction m)
  case 0
  then show ?case by simp
next
  case (Suc m)
  then have IH: "foldl num_add (Num 0) (replicate m (Num v)) = Num (real m * v)" by simp
  have "Suc m \<in> {1..n}" using Suc.prems by simp
  with assms have "is_double (real (Suc m) * v)" by blast
  moreover have eq: "real (Suc m) * v = real m * v + v" by (simp add: algebra_simps)
  ultimately have r: "round64 (real m * v + v) = Num (real m * v + v)"
    by (simp only: is_double_def)
  have rep: "replicate (Suc m) (Num v) = replicate m (Num v) @ [Num v]"
    by (simp add: replicate_append_same)
  have "foldl num_add (Num 0) (replicate (Suc m) (Num v))
      = num_add (foldl num_add (Num 0) (replicate m (Num v))) (Num v)"
    by (simp only: rep foldl_append foldl.simps)
  also have "\<dots> = round64 (real m * v + v)" by (simp only: IH num_add.simps)
  also have "\<dots> = Num (real (Suc m) * v)" by (simp only: r eq)
  finally show ?case .
qed

lemma foldl_zeros: "foldl num_add (Num 0) (replicate m (Num 0)) = Num 0"
  by (induction m) (simp_all add: round64_zero)

lemma flat_window:
  assumes p: "0 < p" and d: "\<forall>j\<in>{1..p}. is_double (real j * v)"
  defines "w \<equiv> replicate p (Num v)"
  shows "arithmetic_mean w = Num v" and "standard_deviation w = Num 0"
proof -
  have "1 \<in> {1..p}" using p by simp
  with d have "is_double (real 1 * v)" by blast
  then have v: "round64 v = Num v" by (simp add: is_double_def)
  have "foldl num_add (Num 0) w = Num (real p * v)"
    unfolding w_def using d by (rule foldl_flat) simp
  then show m: "arithmetic_mean w = Num v"
    using p by (simp add: arithmetic_mean_def w_def v)
  have "map (\<lambda>val. num_pow2 (num_sub val (arithmetic_mean w))) w = replicate p (Num 0)"
    by (simp add: m) (simp add: w_def num_sub_def num_pow2_def round64_zero)
  then have "population_variance w = Num 0"
    using p by (simp add: population_variance_def foldl_zeros w_def round64_zero)
  then show "standard_deviation w = Num 0"
    by (simp add: standard_deviation_def round64_zero)
qed

lemma flat_bands:
  assumes "1 \<le> period" and "period \<le> int (length data)"
    and "last_prices data period = replicate (nat period) (Num v)"
    and "\<forall>j\<in>{1..nat period}. is_double (real j * v)"
  shows "calculateBollingerBands data period (Num k)
           = Some \<lparr>upper = Num v, middle = Num v, lower = Num v\<rparr>"
proof -
  have p: "0 < nat period" using assms(1) by simp
  have "1 \<in> {1..nat period}" using p by simp
  with assms(4) have "is_double (real 1 * v)" by blast
  then have v: "round64 v = Num v" by (simp add: is_double_def)
  from flat_window [OF p assms(4)] assms(3)
  have m: "arithmetic_mean (last_prices data period) = Num v"
    and s: "standard_deviation (last_prices data period) = Num 0" by simp_all
  show ?thesis
    by (simp add: calculateBollingerBands_window [OF assms(1,2)] m s num_sub_def round64_zero v)
qed

lemma small_multiples_double:
  assumes "j \<le> 20"
  shows "is_double (real j * 10)"
proof -
  have "\<bar>int j * 10\<bar> \<le> 2 ^ 53" using assms by simp
  from is_double_of_int [OF this] show ?thesis by simp
qed

lemma tens_bands:
  "calculateBollingerBands (replicate 20 (Num 10)) 20 (Num 2)
     = Some \<lparr>upper = Num 10, middle = Num 10, lower = Num 10\<rparr>"
  by (rule flat_bands) (simp_all add: last_prices_def small_multiples_double)

subsection \<open>The shape of every result\<close>

lemma calculateBollingerBands_shape:
  assumes "calculateBollingerBands data period stdDev = Some b"
  shows "\<exists>s v. middle b = num_div s (Num (of_int period))
             \<and> upper b = num_add (middle b) (num_mul (num_sqrt v) stdDev)
             \<and> lower b = num_add (middle b) (num_neg (num_mul (num_sqrt v) stdDev))"
  using assms
  by (auto simp: calculateBollingerBands_def Let_def num_sub_def split: if_splits)

lemma num_div_double:
  assumes "num_div a (Num p) = Num m"
  shows "is_double m"
  using assms
  by (cases a) (auto simp: round64_is_double is_double_zero split: if_splits)

lemma round64_nonneg:
  assumes "0 \<le> x"
  shows "round64 x = PosInf \<or> (\<exists>y. round64 x = Num y \<and> 0 \<le> y)"
proof (cases "round64 x")
  case (Num y)
  then show ?thesis using fl_nonneg [OF assms] by (simp add: round64_Num)
next
  case NegInf
  then have "fl x \<le> - (2 powi 1024)" by (simp add: round64_NegInf)
  moreover have "(0::real) < 2 powi 1024" by simp
  ultimately show ?thesis using fl_nonneg [OF assms] by linarith
qed (simp_all add: round64_not_NaN)

lemma num_sqrt_not_negative: "num_sqrt a = NaN \<or> num_le (Num 0) (num_sqrt a)"
proof (cases a)
  case (Num x)
  show ?thesis
  proof (cases "x < 0")
    case True
    then show ?thesis by (simp add: Num)
  next
    case False
    then have "0 \<le> sqrt x" by simp
    from round64_nonneg [OF this] show ?thesis using False by (auto simp: Num)
  qed
qed simp_all

lemma num_mul_not_negative:
  assumes "a = NaN \<or> num_le (Num 0) a" and "num_le (Num 0) k"
  shows "num_mul a k = NaN \<or> num_le (Num 0) (num_mul a k)"
proof (cases a)
  case a: (Num x)
  with assms(1) have x: "0 \<le> x" by simp
  show ?thesis
  proof (cases k)
    case (Num y)
    with assms(2) have "0 \<le> y" by simp
    with x have "0 \<le> x * y" by simp
    from round64_nonneg [OF this] show ?thesis by (auto simp: a Num)
  qed (use assms(2) x in \<open>auto simp: a\<close>)
next
  case PosInf
  then show ?thesis using assms(2) by (cases k) auto
next
  case NegInf
  then show ?thesis using assms(1) by simp
next
  case NaN
  then show ?thesis by simp
qed

lemma add_not_negative_ge:
  assumes m: "\<And>x. M = Num x \<Longrightarrow> is_double x"
    and d: "d = NaN \<or> num_le (Num 0) d"
    and u: "num_add M d \<noteq> NaN"
  shows "num_le M (num_add M d)"
proof (cases M)
  case M: (Num x)
  then have dx: "is_double x" by (rule m)
  show ?thesis
  proof (cases d)
    case (Num y)
    with d have y: "0 \<le> y" by simp
    have ge: "x \<le> fl (x + y)" using dx y by (intro fl_ge_double) simp_all
    show ?thesis
    proof (cases "round64 (x + y)")
      case r: (Num z)
      then have "z = fl (x + y)" by (simp add: round64_Num)
      then show ?thesis using ge by (simp add: M Num r)
    next
      case r: NegInf
      then have "fl (x + y) \<le> - (2 powi 1024)" by (simp add: round64_NegInf)
      moreover have "\<bar>x\<bar> < 2 powi 1024" using dx by (simp add: is_double_iff)
      ultimately show ?thesis using ge by linarith
    qed (simp_all add: M Num round64_not_NaN)
  qed (use d u in \<open>auto simp: M\<close>)
next
  case PosInf
  then show ?thesis using d u by (cases d) auto
next
  case NegInf
  then show ?thesis using d u by (cases d) auto
next
  case NaN
  then show ?thesis using u by simp
qed

lemma sub_not_negative_le:
  assumes m: "\<And>x. M = Num x \<Longrightarrow> is_double x"
    and d: "d = NaN \<or> num_le (Num 0) d"
    and u: "num_add M (num_neg d) \<noteq> NaN"
  shows "num_le (num_add M (num_neg d)) M"
proof (cases M)
  case M: (Num x)
  then have dx: "is_double x" by (rule m)
  show ?thesis
  proof (cases d)
    case (Num y)
    with d have y: "0 \<le> y" by simp
    have le: "fl (x - y) \<le> x" using dx y by (intro fl_le_double) simp_all
    show ?thesis
    proof (cases "round64 (x - y)")
      case r: (Num z)
      then have "z = fl (x - y)" by (simp add: round64_Num)
      then show ?thesis using le by (simp add: M Num r)
    next
      case r: PosInf
      then have "2 powi 1024 \<le> fl (x - y)" by (simp add: round64_PosInf)
      moreover have "\<bar>x\<bar> < 2 powi 1024" using dx by (simp add: is_double_iff)
      ultimately show ?thesis using le by linarith
    qed (simp_all add: M Num round64_not_NaN)
  qed (use d u in \<open>auto simp: M\<close>)
next
  case PosInf
  then show ?thesis using d u by (cases d) auto
next
  case NegInf
  then show ?thesis using d u by (cases d) auto
next
  case NaN
  then show ?thesis using u by simp
qed

lemma num_add_Num:
  assumes "num_add (Num m) d = Num u"
  shows "\<exists>y. d = Num y \<and> u = fl (m + y)"
  using assms by (cases d) (auto simp: round64_Num)

subsection \<open>The mean and the mean over the reals\<close>

lemma num_add_Num_left:
  assumes "num_add a (Num x) = Num y"
  shows "\<exists>s. a = Num s \<and> y = fl (s + x) \<and> is_double y"
  using assms by (cases a) (auto simp: round64_Num round64_is_double)

lemma foldl_nonneg_error:
  assumes "\<forall>x\<in>set xs. 0 \<le> x"
    and "foldl num_add (Num 0) (map Num xs) = Num s"
  shows "0 \<le> s \<and> is_double s \<and> \<bar>s - sum_list xs\<bar> \<le> real (length xs) * ulp s / 2"
  using assms
proof (induction xs arbitrary: s rule: rev_induct)
  case Nil
  then show ?case by (simp add: is_double_zero)
next
  case (snoc x xs)
  from snoc.prems(2) have "num_add (foldl num_add (Num 0) (map Num xs)) (Num x) = Num s"
    by simp
  from num_add_Num_left [OF this] obtain t where
    t: "foldl num_add (Num 0) (map Num xs) = Num t" and s: "s = fl (t + x)" and ds: "is_double s"
    by blast
  from snoc.prems(1) have x: "0 \<le> x" and xs: "\<forall>y\<in>set xs. 0 \<le> y" by simp_all
  from snoc.IH [OF xs t] have t0: "0 \<le> t" and dt: "is_double t"
    and IH: "\<bar>t - sum_list xs\<bar> \<le> real (length xs) * ulp t / 2" by simp_all
  have ts: "t \<le> s" unfolding s using dt x by (intro fl_ge_double) simp_all
  then have s0: "0 \<le> s" using t0 by simp
  have "ulp t \<le> ulp s" using ts t0 by (intro ulp_mono) simp
  then have "real (length xs) * ulp t \<le> real (length xs) * ulp s"
    by (intro mult_left_mono) simp_all
  with IH have a: "\<bar>t - sum_list xs\<bar> \<le> real (length xs) * ulp s / 2" by simp
  have b: "\<bar>s - (t + x)\<bar> \<le> ulp s / 2" unfolding s by (rule fl_error_result)
  have "s - sum_list (xs @ [x]) = (s - (t + x)) + (t - sum_list xs)" by simp
  then have "\<bar>s - sum_list (xs @ [x])\<bar> \<le> \<bar>s - (t + x)\<bar> + \<bar>t - sum_list xs\<bar>"
    by (simp only: abs_triangle_ineq)
  also have "\<dots> \<le> ulp s / 2 + real (length xs) * ulp s / 2" using b a by (rule add_mono)
  also have "\<dots> = real (length (xs @ [x])) * ulp s / 2" by (simp add: algebra_simps)
  finally show ?case using s0 ds by simp
qed

lemma num_div_Num:
  assumes "num_div a (Num p) = Num m" and "p \<noteq> 0"
  shows "\<exists>s. a = Num s \<and> m = fl (s / p)"
  using assms by (cases a) (auto simp: round64_Num split: if_splits)

lemma mean_near_exact_mean:
  assumes xs: "\<forall>x\<in>set xs. 0 \<le> x" and n: "xs \<noteq> []"
    and s: "foldl num_add (Num 0) (map Num xs) = Num s"
    and m: "arithmetic_mean (map Num xs) = Num m"
  shows "\<bar>m - sum_list xs / real (length xs)\<bar> \<le> (ulp s + ulp m) / 2"
proof -
  let ?n = "real (length xs)"
  have n0: "0 < ?n" using n by simp
  from m have "num_div (Num s) (Num ?n) = Num m" by (simp add: arithmetic_mean_def s)
  from num_div_Num [OF this] n0 have mf: "m = fl (s / ?n)" by simp
  from foldl_nonneg_error [OF xs s] have e: "\<bar>s - sum_list xs\<bar> \<le> ?n * ulp s / 2" by simp
  have "s / ?n - sum_list xs / ?n = (s - sum_list xs) / ?n" by (simp add: diff_divide_distrib)
  then have "\<bar>s / ?n - sum_list xs / ?n\<bar> = \<bar>s - sum_list xs\<bar> / ?n" using n0 by simp
  also have "\<dots> \<le> (?n * ulp s / 2) / ?n" using e n0 by (intro divide_right_mono) simp_all
  also have "\<dots> = ulp s / 2" using n0 by simp
  finally have a: "\<bar>s / ?n - sum_list xs / ?n\<bar> \<le> ulp s / 2" .
  have b: "\<bar>m - s / ?n\<bar> \<le> ulp m / 2" unfolding mf by (rule fl_error_result)
  have "m - sum_list xs / ?n = (m - s / ?n) + (s / ?n - sum_list xs / ?n)" by simp
  then have "\<bar>m - sum_list xs / ?n\<bar> \<le> \<bar>m - s / ?n\<bar> + \<bar>s / ?n - sum_list xs / ?n\<bar>"
    by (simp only: abs_triangle_ineq)
  also have "\<dots> \<le> ulp m / 2 + ulp s / 2" using b a by (rule add_mono)
  finally show ?thesis by simp
qed

subsection \<open>Concrete windows\<close>

lemma bands_flat_price:
  shows "arithmetic_mean (replicate 20 (Num (577536693150679 / 2 ^ 33)))
       = Num (2310146772602717 / 2 ^ 35)"
    and "standard_deviation (replicate 20 (Num (577536693150679 / 2 ^ 33)))
       = Num (1 / 2 ^ 35)"
    and "calculateBollingerBands (replicate 20 (Num (577536693150679 / 2 ^ 33))) 20 (Num 2)
       = Some \<lparr>upper = Num (2310146772602719 / 2 ^ 35),
             middle = Num (2310146772602717 / 2 ^ 35),
             lower = Num (2310146772602715 / 2 ^ 35)\<rparr>"
    and "num_add (Num (2310146772602717 / 2 ^ 35)) (num_mul (Num (1 / 2 ^ 35)) (Num 2))
       = Num (2310146772602719 / 2 ^ 35)"
    and "num_sub (Num (2310146772602717 / 2 ^ 35)) (num_mul (Num (1 / 2 ^ 35)) (Num 2))
       = Num (2310146772602715 / 2 ^ 35)"
    and "is_double (577536693150679 / 2 ^ 33)"
    and "foldl num_add (Num 0) (replicate 20 (Num (577536693150679 / 2 ^ 33)))
       = Num (721920866438349 / 2 ^ 29)"
proof -
  let ?w = "[Num (577536693150679 / 2 ^ 33), Num (577536693150679 / 2 ^ 33),
       Num (577536693150679 / 2 ^ 33), Num (577536693150679 / 2 ^ 33),
       Num (577536693150679 / 2 ^ 33), Num (577536693150679 / 2 ^ 33),
       Num (577536693150679 / 2 ^ 33), Num (577536693150679 / 2 ^ 33),
       Num (577536693150679 / 2 ^ 33), Num (577536693150679 / 2 ^ 33),
       Num (577536693150679 / 2 ^ 33), Num (577536693150679 / 2 ^ 33),
       Num (577536693150679 / 2 ^ 33), Num (577536693150679 / 2 ^ 33),
       Num (577536693150679 / 2 ^ 33), Num (577536693150679 / 2 ^ 33),
       Num (577536693150679 / 2 ^ 33), Num (577536693150679 / 2 ^ 33),
       Num (577536693150679 / 2 ^ 33), Num (577536693150679 / 2 ^ 33)]"
  have rw: "replicate 20 (Num (577536693150679 / 2 ^ 33)) = ?w"
    by (simp add: eval_nat_numeral)
  have p1: "num_add (Num 0) (Num (577536693150679 / 2 ^ 33))
      = Num (577536693150679 / 2 ^ 33)"
    by (simp only: num_add.simps num_mul.simps num_neg.simps num_sub_def num_pow2_def)
       (rule round64_eval [where e = 16 and k = 4620293545205432], simp_all)
  have p2: "num_add (Num (577536693150679 / 2 ^ 33)) (Num (577536693150679 / 2 ^ 33))
      = Num (577536693150679 / 2 ^ 32)"
    by (simp only: num_add.simps num_mul.simps num_neg.simps num_sub_def num_pow2_def)
       (rule round64_eval [where e = 17 and k = 4620293545205432], simp_all)
  have p3: "num_add (Num (577536693150679 / 2 ^ 32)) (Num (577536693150679 / 2 ^ 33))
      = Num (1732610079452037 / 2 ^ 33)"
    by (simp only: num_add.simps num_mul.simps num_neg.simps num_sub_def num_pow2_def)
       (rule round64_eval [where e = 17 and k = 6930440317808148], simp_all)
  have p4: "num_add (Num (1732610079452037 / 2 ^ 33)) (Num (577536693150679 / 2 ^ 33))
      = Num (577536693150679 / 2 ^ 31)"
    by (simp only: num_add.simps num_mul.simps num_neg.simps num_sub_def num_pow2_def)
       (rule round64_eval [where e = 18 and k = 4620293545205432], simp_all)
  have p5: "num_add (Num (577536693150679 / 2 ^ 31)) (Num (577536693150679 / 2 ^ 33))
      = Num (2887683465753395 / 2 ^ 33)"
    by (simp only: num_add.simps num_mul.simps num_neg.simps num_sub_def num_pow2_def)
       (rule round64_eval [where e = 18 and k = 5775366931506790], simp_all)
  have p6: "num_add (Num (2887683465753395 / 2 ^ 33)) (Num (577536693150679 / 2 ^ 33))
      = Num (1732610079452037 / 2 ^ 32)"
    by (simp only: num_add.simps num_mul.simps num_neg.simps num_sub_def num_pow2_def)
       (rule round64_eval [where e = 18 and k = 6930440317808148], simp_all)
  have p7: "num_add (Num (1732610079452037 / 2 ^ 32)) (Num (577536693150679 / 2 ^ 33))
      = Num (4042756852054753 / 2 ^ 33)"
    by (simp only: num_add.simps num_mul.simps num_neg.simps num_sub_def num_pow2_def)
       (rule round64_eval [where e = 18 and k = 8085513704109506], simp_all)
  have p8: "num_add (Num (4042756852054753 / 2 ^ 33)) (Num (577536693150679 / 2 ^ 33))
      = Num (577536693150679 / 2 ^ 30)"
    by (simp only: num_add.simps num_mul.simps num_neg.simps num_sub_def num_pow2_def)
       (rule round64_eval [where e = 19 and k = 4620293545205432], simp_all)
  have p9: "num_add (Num (577536693150679 / 2 ^ 30)) (Num (577536693150679 / 2 ^ 33))
      = Num (5197830238356111 / 2 ^ 33)"
    by (simp only: num_add.simps num_mul.simps num_neg.simps num_sub_def num_pow2_def)
       (rule round64_eval [where e = 19 and k = 5197830238356111], simp_all)
  have p10: "num_add (Num (5197830238356111 / 2 ^ 33)) (Num (577536693150679 / 2 ^ 33))
      = Num (2887683465753395 / 2 ^ 32)"
    by (simp only: num_add.simps num_mul.simps num_neg.simps num_sub_def num_pow2_def)
       (rule round64_eval [where e = 19 and k = 5775366931506790], simp_all)
  have p11: "num_add (Num (2887683465753395 / 2 ^ 32)) (Num (577536693150679 / 2 ^ 33))
      = Num (6352903624657469 / 2 ^ 33)"
    by (simp only: num_add.simps num_mul.simps num_neg.simps num_sub_def num_pow2_def)
       (rule round64_eval [where e = 19 and k = 6352903624657469], simp_all)
  have p12: "num_add (Num (6352903624657469 / 2 ^ 33)) (Num (577536693150679 / 2 ^ 33))
      = Num (1732610079452037 / 2 ^ 31)"
    by (simp only: num_add.simps num_mul.simps num_neg.simps num_sub_def num_pow2_def)
       (rule round64_eval [where e = 19 and k = 6930440317808148], simp_all)
  have p13: "num_add (Num (1732610079452037 / 2 ^ 31)) (Num (577536693150679 / 2 ^ 33))
      = Num (7507977010958827 / 2 ^ 33)"
    by (simp only: num_add.simps num_mul.simps num_neg.simps num_sub_def num_pow2_def)
       (rule round64_eval [where e = 19 and k = 7507977010958827], simp_all)
  have p14: "num_add (Num (7507977010958827 / 2 ^ 33)) (Num (577536693150679 / 2 ^ 33))
      = Num (4042756852054753 / 2 ^ 32)"
    by (simp only: num_add.simps num_mul.simps num_neg.simps num_sub_def num_pow2_def)
       (rule round64_eval [where e = 19 and k = 8085513704109506], simp_all)
  have p15: "num_add (Num (4042756852054753 / 2 ^ 32)) (Num (577536693150679 / 2 ^ 33))
      = Num (8663050397260185 / 2 ^ 33)"
    by (simp only: num_add.simps num_mul.simps num_neg.simps num_sub_def num_pow2_def)
       (rule round64_eval [where e = 19 and k = 8663050397260185], simp_all)
  have p16: "num_add (Num (8663050397260185 / 2 ^ 33)) (Num (577536693150679 / 2 ^ 33))
      = Num (577536693150679 / 2 ^ 29)"
    by (simp only: num_add.simps num_mul.simps num_neg.simps num_sub_def num_pow2_def)
       (rule round64_eval [where e = 20 and k = 4620293545205432], simp_all)
  have p17: "num_add (Num (577536693150679 / 2 ^ 29)) (Num (577536693150679 / 2 ^ 33))
      = Num (1227265472945193 / 2 ^ 30)"
    by (simp only: num_add.simps num_mul.simps num_neg.simps num_sub_def num_pow2_def)
       (rule round64_eval [where e = 20 and k = 4909061891780772], simp_all)
  have p18: "num_add (Num (1227265472945193 / 2 ^ 30)) (Num (577536693150679 / 2 ^ 33))
      = Num (324864389897257 / 2 ^ 28)"
    by (simp only: num_add.simps num_mul.simps num_neg.simps num_sub_def num_pow2_def)
       (rule round64_eval [where e = 20 and k = 5197830238356112], simp_all)
  have p19: "num_add (Num (324864389897257 / 2 ^ 28)) (Num (577536693150679 / 2 ^ 33))
      = Num (1371649646232863 / 2 ^ 30)"
    by (simp only: num_add.simps num_mul.simps num_neg.simps num_sub_def num_pow2_def)
       (rule round64_eval [where e = 20 and k = 5486598584931452], simp_all)
  have p20: "num_add (Num (1371649646232863 / 2 ^ 30)) (Num (577536693150679 / 2 ^ 33))
      = Num (721920866438349 / 2 ^ 29)"
    by (simp only: num_add.simps num_mul.simps num_neg.simps num_sub_def num_pow2_def)
       (rule round64_eval [where e = 20 and k = 5775366931506792], simp_all)
  have p21: "num_div (Num (721920866438349 / 2 ^ 29)) (Num 20)
      = Num (2310146772602717 / 2 ^ 35)"
    by (simp only: num_div.simps)
       (simp, rule round64_eval [where e = 16 and k = 4620293545205434], simp_all)
  have p22: "num_sub (Num (577536693150679 / 2 ^ 33)) (Num (2310146772602717 / 2 ^ 35))
      = Num (- (1 / 2 ^ 35))"
    by (simp only: num_add.simps num_mul.simps num_neg.simps num_sub_def num_pow2_def)
       (rule round64_eval [where e = "- 35" and k = "- 4503599627370496"], simp_all)
  have p23: "num_pow2 (Num (- (1 / 2 ^ 35))) = Num (1 / 2 ^ 70)"
    by (simp only: num_add.simps num_mul.simps num_neg.simps num_sub_def num_pow2_def)
       (rule round64_eval [where e = "- 70" and k = 4503599627370496], simp_all)
  have p24: "num_add (Num 0) (Num (1 / 2 ^ 70)) = Num (1 / 2 ^ 70)"
    by (simp only: num_add.simps num_mul.simps num_neg.simps num_sub_def num_pow2_def)
       (rule round64_eval [where e = "- 70" and k = 4503599627370496], simp_all)
  have p25: "num_add (Num (1 / 2 ^ 70)) (Num (1 / 2 ^ 70)) = Num (1 / 2 ^ 69)"
    by (simp only: num_add.simps num_mul.simps num_neg.simps num_sub_def num_pow2_def)
       (rule round64_eval [where e = "- 69" and k = 4503599627370496], simp_all)
  have p26: "num_add (Num (1 / 2 ^ 69)) (Num (1 / 2 ^ 70)) = Num (3 / 2 ^ 70)"
    by (simp only: num_add.simps num_mul.simps num_neg.simps num_sub_def num_pow2_def)
       (rule round64_eval [where e = "- 69" and k = 6755399441055744], simp_all)
  have p27: "num_add (Num (3 / 2 ^ 70)) (Num (1 / 2 ^ 70)) = Num (1 / 2 ^ 68)"
    by (simp only: num_add.simps num_mul.simps num_neg.simps num_sub_def num_pow2_def)
       (rule round64_eval [where e = "- 68" and k = 4503599627370496], simp_all)
  have p28: "num_add (Num (1 / 2 ^ 68)) (Num (1 / 2 ^ 70)) = Num (5 / 2 ^ 70)"
    by (simp only: num_add.simps num_mul.simps num_neg.simps num_sub_def num_pow2_def)
       (rule round64_eval [where e = "- 68" and k = 5629499534213120], simp_all)
  have p29: "num_add (Num (5 / 2 ^ 70)) (Num (1 / 2 ^ 70)) = Num (3 / 2 ^ 69)"
    by (simp only: num_add.simps num_mul.simps num_neg.simps num_sub_def num_pow2_def)
       (rule round64_eval [where e = "- 68" and k = 6755399441055744], simp_all)
  have p30: "num_add (Num (3 / 2 ^ 69)) (Num (1 / 2 ^ 70)) = Num (7 / 2 ^ 70)"
    by (simp only: num_add.simps num_mul.simps num_neg.simps num_sub_def num_pow2_def)
       (rule round64_eval [where e = "- 68" and k = 7881299347898368], simp_all)
  have p31: "num_add (Num (7 / 2 ^ 70)) (Num (1 / 2 ^ 70)) = Num (1 / 2 ^ 67)"
    by (simp only: num_add.simps num_mul.simps num_neg.simps num_sub_def num_pow2_def)
       (rule round64_eval [where e = "- 67" and k = 4503599627370496], simp_all)
  have p32: "num_add (Num (1 / 2 ^ 67)) (Num (1 / 2 ^ 70)) = Num (9 / 2 ^ 70)"
    by (simp only: num_add.simps num_mul.simps num_neg.simps num_sub_def num_pow2_def)
       (rule round64_eval [where e = "- 67" and k = 5066549580791808], simp_all)
  have p33: "num_add (Num (9 / 2 ^ 70)) (Num (1 / 2 ^ 70)) = Num (5 / 2 ^ 69)"
    by (simp only: num_add.simps num_mul.simps num_neg.simps num_sub_def num_pow2_def)
       (rule round64_eval [where e = "- 67" and k = 5629499534213120], simp_all)
  have p34: "num_add (Num (5 / 2 ^ 69)) (Num (1 / 2 ^ 70)) = Num (11 / 2 ^ 70)"
    by (simp only: num_add.simps num_mul.simps num_neg.simps num_sub_def num_pow2_def)
       (rule round64_eval [where e = "- 67" and k = 6192449487634432], simp_all)
  have p35: "num_add (Num (11 / 2 ^ 70)) (Num (1 / 2 ^ 70)) = Num (3 / 2 ^ 68)"
    by (simp only: num_add.simps num_mul.simps num_neg.simps num_sub_def num_pow2_def)
       (rule round64_eval [where e = "- 67" and k = 6755399441055744], simp_all)
  have p36: "num_add (Num (3 / 2 ^ 68)) (Num (1 / 2 ^ 70)) = Num (13 / 2 ^ 70)"
    by (simp only: num_add.simps num_mul.simps num_neg.simps num_sub_def num_pow2_def)
       (rule round64_eval [where e = "- 67" and k = 7318349394477056], simp_all)
  have p37: "num_add (Num (13 / 2 ^ 70)) (Num (1 / 2 ^ 70)) = Num (7 / 2 ^ 69)"
    by (simp only: num_add.simps num_mul.simps num_neg.simps num_sub_def num_pow2_def)
       (rule round64_eval [where e = "- 67" and k = 7881299347898368], simp_all)
  have p38: "num_add (Num (7 / 2 ^ 69)) (Num (1 / 2 ^ 70)) = Num (15 / 2 ^ 70)"
    by (simp only: num_add.simps num_mul.simps num_neg.simps num_sub_def num_pow2_def)
       (rule round64_eval [where e = "- 67" and k = 8444249301319680], simp_all)
  have p39: "num_add (Num (15 / 2 ^ 70)) (Num (1 / 2 ^ 70)) = Num (1 / 2 ^ 66)"
    by (simp only: num_add.simps num_mul.simps num_neg.simps num_sub_def num_pow2_def)
       (rule round64_eval [where e = "- 66" and k = 4503599627370496], simp_all)
  have p40: "num_add (Num (1 / 2 ^ 66)) (Num (1 / 2 ^ 70)) = Num (17 / 2 ^ 70)"
    by (simp only: num_add.simps num_mul.simps num_neg.simps num_sub_def num_pow2_def)
       (rule round64_eval [where e = "- 66" and k = 4785074604081152], simp_all)
  have p41: "num_add (Num (17 / 2 ^ 70)) (Num (1 / 2 ^ 70)) = Num (9 / 2 ^ 69)"
    by (simp only: num_add.simps num_mul.simps num_neg.simps num_sub_def num_pow2_def)
       (rule round64_eval [where e = "- 66" and k = 5066549580791808], simp_all)
  have p42: "num_add (Num (9 / 2 ^ 69)) (Num (1 / 2 ^ 70)) = Num (19 / 2 ^ 70)"
    by (simp only: num_add.simps num_mul.simps num_neg.simps num_sub_def num_pow2_def)
       (rule round64_eval [where e = "- 66" and k = 5348024557502464], simp_all)
  have p43: "num_add (Num (19 / 2 ^ 70)) (Num (1 / 2 ^ 70)) = Num (5 / 2 ^ 68)"
    by (simp only: num_add.simps num_mul.simps num_neg.simps num_sub_def num_pow2_def)
       (rule round64_eval [where e = "- 66" and k = 5629499534213120], simp_all)
  have p44: "num_div (Num (5 / 2 ^ 68)) (Num 20) = Num (1 / 2 ^ 70)"
    by (simp only: num_div.simps)
       (simp, rule round64_eval [where e = "- 70" and k = 4503599627370496], simp_all)
  have p45: "sqrt (1 / 2 ^ 70) = 1 / 2 ^ 35"
    by (rule sqrt_eval) simp_all
  have p46: "num_sqrt (Num (1 / 2 ^ 70)) = Num (1 / 2 ^ 35)"
    by (simp only: num_sqrt.simps p45)
       (simp, rule round64_eval [where e = "- 35" and k = 4503599627370496], simp_all)
  have p47: "num_mul (Num (1 / 2 ^ 35)) (Num 2) = Num (1 / 2 ^ 34)"
    by (simp only: num_add.simps num_mul.simps num_neg.simps num_sub_def num_pow2_def)
       (rule round64_eval [where e = "- 34" and k = 4503599627370496], simp_all)
  have p48: "num_add (Num (2310146772602717 / 2 ^ 35)) (Num (1 / 2 ^ 34))
      = Num (2310146772602719 / 2 ^ 35)"
    by (simp only: num_add.simps num_mul.simps num_neg.simps num_sub_def num_pow2_def)
       (rule round64_eval [where e = 16 and k = 4620293545205438], simp_all)
  have p49: "num_sub (Num (2310146772602717 / 2 ^ 35)) (Num (1 / 2 ^ 34))
      = Num (2310146772602715 / 2 ^ 35)"
    by (simp only: num_add.simps num_mul.simps num_neg.simps num_sub_def num_pow2_def)
       (rule round64_eval [where e = 16 and k = 4620293545205430], simp_all)
  note steps =
    p1 p2 p3 p4 p5 p6 p7 p8 p9 p10 p11 p12 p13 p14 p15 p16 p17 p18 p19 p20 p21 p22 p23
    p24 p25 p26 p27 p28 p29 p30 p31 p32 p33 p34 p35 p36 p37 p38 p39 p40 p41 p42 p43 p44
    p45 p46 p47 p48 p49
  have n: "real (length ?w) = 20" by simp
  have w: "last_prices ?w 20 = ?w" by (simp add: last_prices_def)
  have m: "arithmetic_mean ?w = Num (2310146772602717 / 2 ^ 35)"
    by (simp only: arithmetic_mean_def foldl.simps n steps)
  have v: "population_variance ?w = Num (1 / 2 ^ 70)"
    by (simp only: population_variance_def m list.map foldl.simps n steps)
  have s: "standard_deviation ?w = Num (1 / 2 ^ 35)"
    by (simp only: standard_deviation_def v steps)
  have b: "calculateBollingerBands ?w 20 (Num 2) =
      Some \<lparr>upper = num_add (arithmetic_mean (last_prices ?w 20))
                       (num_mul (standard_deviation (last_prices ?w 20)) (Num 2)),
            middle = arithmetic_mean (last_prices ?w 20),
            lower = num_sub (arithmetic_mean (last_prices ?w 20))
                       (num_mul (standard_deviation (last_prices ?w 20)) (Num 2))\<rparr>"
    by (rule calculateBollingerBands_window) simp_all
  show "arithmetic_mean (replicate 20 (Num (577536693150679 / 2 ^ 33)))
       = Num (2310146772602717 / 2 ^ 35)"
    by (simp only: rw m)
  show "standard_deviation (replicate 20 (Num (577536693150679 / 2 ^ 33)))
       = Num (1 / 2 ^ 35)"
    by (simp only: rw s)
  show "calculateBollingerBands (replicate 20 (Num (577536693150679 / 2 ^ 33))) 20 (Num 2)
       = Some \<lparr>upper = Num (2310146772602719 / 2 ^ 35),
             middle = Num (2310146772602717 / 2 ^ 35),
             lower = Num (2310146772602715 / 2 ^ 35)\<rparr>"
    by (simp only: rw b w m s steps)
  show "num_add (Num (2310146772602717 / 2 ^ 35)) (num_mul (Num (1 / 2 ^ 35)) (Num 2))
       = Num (2310146772602719 / 2 ^ 35)"
    by (simp only: steps)
  show "num_sub (Num (2310146772602717 / 2 ^ 35)) (num_mul (Num (1 / 2 ^ 35)) (Num 2))
       = Num (2310146772602715 / 2 ^ 35)"
    by (simp only: steps)
  show "is_double (577536693150679 / 2 ^ 33)"
    unfolding is_double_def
    by (rule round64_eval [where e = 16 and k = 4620293545205432]) simp_all
  show "foldl num_add (Num 0) (replicate 20 (Num (577536693150679 / 2 ^ 33)))
       = Num (721920866438349 / 2 ^ 29)"
    by (simp only: rw foldl.simps steps)
qed

lemma bands_sevens:
  shows "arithmetic_mean [Num (3152519739159347 / 2 ^ 52), Num (7656119366529843 / 2 ^ 52)]
       = Num (5404319552844595 / 2 ^ 52)"
    and "standard_deviation [Num (3152519739159347 / 2 ^ 52), Num (7656119366529843 / 2 ^ 52)]
       = Num (1 / 2)"
    and "calculateBollingerBands [Num (3152519739159347 / 2 ^ 52), Num (7656119366529843 / 2 ^ 52)] 2 (Num 2)
       = Some \<lparr>upper = Num (2476979795053773 / 2 ^ 50),
             middle = Num (5404319552844595 / 2 ^ 52),
             lower = Num (900719925474099 / 2 ^ 52)\<rparr>"
    and "num_add (Num (5404319552844595 / 2 ^ 52)) (num_mul (Num (1 / 2)) (Num 2))
       = Num (2476979795053773 / 2 ^ 50)"
    and "num_sub (Num (5404319552844595 / 2 ^ 52)) (num_mul (Num (1 / 2)) (Num 2))
       = Num (900719925474099 / 2 ^ 52)"
    and "num_sub (Num (2476979795053773 / 2 ^ 50)) (Num (5404319552844595 / 2 ^ 52))
       = Num (4503599627370497 / 2 ^ 52)"
    and "num_sub (Num (5404319552844595 / 2 ^ 52)) (Num (900719925474099 / 2 ^ 52))
       = Num 1"
    and "is_double (3152519739159347 / 2 ^ 52)"
    and "is_double (7656119366529843 / 2 ^ 52)"
    and "foldl num_add (Num 0) [Num (3152519739159347 / 2 ^ 52), Num (7656119366529843 / 2 ^ 52)]
       = Num (5404319552844595 / 2 ^ 51)"
proof -
  let ?w = "[Num (3152519739159347 / 2 ^ 52), Num (7656119366529843 / 2 ^ 52)]"
  have s1: "num_add (Num 0) (Num (3152519739159347 / 2 ^ 52))
      = Num (3152519739159347 / 2 ^ 52)"
    by (simp only: num_add.simps num_mul.simps num_neg.simps num_sub_def num_pow2_def)
       (rule round64_eval [where e = "- 1" and k = 6305039478318694], simp_all)
  have s2: "num_add (Num (3152519739159347 / 2 ^ 52)) (Num (7656119366529843 / 2 ^ 52))
      = Num (5404319552844595 / 2 ^ 51)"
    by (simp only: num_add.simps num_mul.simps num_neg.simps num_sub_def num_pow2_def)
       (rule round64_eval [where e = 1 and k = 5404319552844595], simp_all)
  have s3: "num_div (Num (5404319552844595 / 2 ^ 51)) (Num 2)
      = Num (5404319552844595 / 2 ^ 52)"
    by (simp only: num_div.simps)
       (simp, rule round64_eval [where e = 0 and k = 5404319552844595], simp_all)
  have s4: "num_sub (Num (3152519739159347 / 2 ^ 52)) (Num (5404319552844595 / 2 ^ 52))
      = Num (- (1 / 2))"
    by (simp only: num_add.simps num_mul.simps num_neg.simps num_sub_def num_pow2_def)
       (rule round64_eval [where e = "- 1" and k = "- 4503599627370496"], simp_all)
  have s5: "num_pow2 (Num (- (1 / 2))) = Num (1 / 2 ^ 2)"
    by (simp only: num_add.simps num_mul.simps num_neg.simps num_sub_def num_pow2_def)
       (rule round64_eval [where e = "- 2" and k = 4503599627370496], simp_all)
  have s6: "num_add (Num 0) (Num (1 / 2 ^ 2)) = Num (1 / 2 ^ 2)"
    by (simp only: num_add.simps num_mul.simps num_neg.simps num_sub_def num_pow2_def)
       (rule round64_eval [where e = "- 2" and k = 4503599627370496], simp_all)
  have s7: "num_sub (Num (7656119366529843 / 2 ^ 52)) (Num (5404319552844595 / 2 ^ 52))
      = Num (1 / 2)"
    by (simp only: num_add.simps num_mul.simps num_neg.simps num_sub_def num_pow2_def)
       (rule round64_eval [where e = "- 1" and k = 4503599627370496], simp_all)
  have s8: "num_pow2 (Num (1 / 2)) = Num (1 / 2 ^ 2)"
    by (simp only: num_add.simps num_mul.simps num_neg.simps num_sub_def num_pow2_def)
       (rule round64_eval [where e = "- 2" and k = 4503599627370496], simp_all)
  have s9: "num_add (Num (1 / 2 ^ 2)) (Num (1 / 2 ^ 2)) = Num (1 / 2)"
    by (simp only: num_add.simps num_mul.simps num_neg.simps num_sub_def num_pow2_def)
       (rule round64_eval [where e = "- 1" and k = 4503599627370496], simp_all)
  have s10: "num_div (Num (1 / 2)) (Num 2) = Num (1 / 2 ^ 2)"
    by (simp only: num_div.simps)
       (simp, rule round64_eval [where e = "- 2" and k = 4503599627370496], simp_all)
  have s11: "sqrt (1 / 2 ^ 2) = 1 / 2"
    by (rule sqrt_eval) simp_all
  have s12: "num_sqrt (Num (1 / 2 ^ 2)) = Num (1 / 2)"
    by (simp only: num_sqrt.simps s11)
       (simp, rule round64_eval [where e = "- 1" and k = 4503599627370496], simp_all)
  have s13: "num_mul (Num (1 / 2)) (Num 2) = Num 1"
    by (simp only: num_add.simps num_mul.simps num_neg.simps num_sub_def num_pow2_def)
       (rule round64_eval [where e = 0 and k = 4503599627370496], simp_all)
  have s14: "num_add (Num (5404319552844595 / 2 ^ 52)) (Num 1)
      = Num (2476979795053773 / 2 ^ 50)"
    by (simp only: num_add.simps num_mul.simps num_neg.simps num_sub_def num_pow2_def)
       (rule round64_eval [where e = 1 and k = 4953959590107546], simp_all)
  have s15: "num_sub (Num (5404319552844595 / 2 ^ 52)) (Num 1)
      = Num (900719925474099 / 2 ^ 52)"
    by (simp only: num_add.simps num_mul.simps num_neg.simps num_sub_def num_pow2_def)
       (rule round64_eval [where e = "- 3" and k = 7205759403792792], simp_all)
  have s16: "num_sub (Num (2476979795053773 / 2 ^ 50)) (Num (5404319552844595 / 2 ^ 52))
      = Num (4503599627370497 / 2 ^ 52)"
    by (simp only: num_add.simps num_mul.simps num_neg.simps num_sub_def num_pow2_def)
       (rule round64_eval [where e = 0 and k = 4503599627370497], simp_all)
  have s17: "num_sub (Num (5404319552844595 / 2 ^ 52)) (Num (900719925474099 / 2 ^ 52))
      = Num 1"
    by (simp only: num_add.simps num_mul.simps num_neg.simps num_sub_def num_pow2_def)
       (rule round64_eval [where e = 0 and k = 4503599627370496], simp_all)
  note steps =
    s1 s2 s3 s4 s5 s6 s7 s8 s9 s10 s11 s12 s13 s14 s15 s16 s17
  have n: "real (length ?w) = 2" by simp
  have w: "last_prices ?w 2 = ?w" by (simp add: last_prices_def)
  have m: "arithmetic_mean ?w = Num (5404319552844595 / 2 ^ 52)"
    by (simp only: arithmetic_mean_def foldl.simps n steps)
  have v: "population_variance ?w = Num (1 / 2 ^ 2)"
    by (simp only: population_variance_def m list.map foldl.simps n steps)
  have s: "standard_deviation ?w = Num (1 / 2)"
    by (simp only: standard_deviation_def v steps)
  have b: "calculateBollingerBands ?w 2 (Num 2) =
      Some \<lparr>upper = num_add (arithmetic_mean (last_prices ?w 2))
                       (num_mul (standard_deviation (last_prices ?w 2)) (Num 2)),
            middle = arithmetic_mean (last_prices ?w 2),
            lower = num_sub (arithmetic_mean (last_prices ?w 2))
                       (num_mul (standard_deviation (last_prices ?w 2)) (Num 2))\<rparr>"
    by (rule calculateBollingerBands_window) simp_all
  show "arithmetic_mean [Num (3152519739159347 / 2 ^ 52), Num (7656119366529843 / 2 ^ 52)]
       = Num (5404319552844595 / 2 ^ 52)"
    by (simp only: m)
  show "standard_deviation [Num (3152519739159347 / 2 ^ 52), Num (7656119366529843 / 2 ^ 52)]
       = Num (1 / 2)"
    by (simp only: s)
  show "calculateBollingerBands [Num (3152519739159347 / 2 ^ 52), Num (7656119366529843 / 2 ^ 52)] 2 (Num 2)
       = Some \<lparr>upper = Num (2476979795053773 / 2 ^ 50),
             middle = Num (5404319552844595 / 2 ^ 52),
             lower = Num (900719925474099 / 2 ^ 52)\<rparr>"
    by (simp only: b w m s steps)
  show "num_add (Num (5404319552844595 / 2 ^ 52)) (num_mul (Num (1 / 2)) (Num 2))
       = Num (2476979795053773 / 2 ^ 50)"
    by (simp only: steps)
  show "num_sub (Num (5404319552844595 / 2 ^ 52)) (num_mul (Num (1 / 2)) (Num 2))
       = Num (900719925474099 / 2 ^ 52)"
    by (simp only: steps)
  show "num_sub (Num (2476979795053773 / 2 ^ 50)) (Num (5404319552844595 / 2 ^ 52))
       = Num (4503599627370497 / 2 ^ 52)"
    by (simp only: steps)
  show "num_sub (Num (5404319552844595 / 2 ^ 52)) (Num (900719925474099 / 2 ^ 52))
       = Num 1"
    by (simp only: steps)
  show "is_double (3152519739159347 / 2 ^ 52)"
    unfolding is_double_def
    by (rule round64_eval [where e = "- 1" and k = 6305039478318694]) simp_all
  show "is_double (7656119366529843 / 2 ^ 52)"
    unfolding is_double_def
    by (rule round64_eval [where e = 0 and k = 7656119366529843]) simp_all
  show "foldl num_add (Num 0) [Num (3152519739159347 / 2 ^ 52), Num (7656119366529843 / 2 ^ 52)]
       = Num (5404319552844595 / 2 ^ 51)"
    by (simp only: foldl.simps steps)
qed

lemma bands_overflow:
  "calculateBollingerBands [Num (2 ^ 1023), Num (2 ^ 1023)] 2 (Num 2)
     = Some \<lparr>upper = PosInf, middle = PosInf, lower = NaN\<rparr>"
proof -
  have a: "round64 (2 ^ 1023) = Num (2 ^ 1023)" using round64_pow2 [of 1023] by simp
  have "(2::real) ^ 1023 + 2 ^ 1023 = 2 powi 1024" by simp
  then have b: "round64 (2 ^ 1023 + 2 ^ 1023) = PosInf" by (simp only: round64_overflow)
  have s: "array_slice_from [Num (2 ^ 1023), Num (2 ^ 1023)] (- 2)
      = [Num (2 ^ 1023), Num (2 ^ 1023)]"
    by (simp add: array_slice_from_def array_slice_def)
  have sum: "foldl (\<lambda>acc val. num_add acc val) (Num 0) [Num (2 ^ 1023), Num (2 ^ 1023)] = PosInf"
    using a b by simp
  show ?thesis
    unfolding calculateBollingerBands_def Let_def s sum
    by (simp add: num_sub_def num_pow2_def)
qed

lemma bands_period_zero:
  "calculateBollingerBands [Num 1] 0 (Num 2)
     = Some \<lparr>upper = PosInf, middle = PosInf, lower = NaN\<rparr>"
  by (simp add: calculateBollingerBands_def Let_def array_slice_from_def array_slice_def
      round64_one num_sub_def num_pow2_def)

lemma mean_empty: "arithmetic_mean (last_prices [Num 1] 0) = NaN"
  by (simp add: arithmetic_mean_def last_prices_def)

section \<open>Polls\<close>

lemma pollPrice_Inl:
  "fetched env = Inl err \<Longrightarrow> pollPrice env s = s\<lparr>effects := effects s @ [ConsoleError err]\<rparr>"
  by (simp add: pollPrice_def)

lemma is_notification_show: "is_notification (showNotification sw body)"
  by (simp add: showNotification_def)

text \<open>The three outcomes of a poll whose fetch succeeded.\<close>

lemma pollPrice_Inr_cases:
  fixes env :: poll_env and s :: app_state
  assumes "fetched env = Inr price"
  defines "h \<equiv> array_slice_from (priceHistory s) (- 19) @ [price]"
  defines "nb \<equiv> calculateBollingerBands h 20 (Num 2)"
  shows "pollPrice env s = s\<lparr>bbands := nb, priceHistory := h, currentPrice := Some price\<rparr>
     \<or> (\<exists>b msg. nb = Some b \<and> notificationStatus env = Granted
           \<and> COOLDOWN_PERIOD < now env - lastAlertTime s
           \<and> alertMessage (toLocaleString env) price b = Some msg
           \<and> pollPrice env s = s\<lparr>bbands := nb,
                 effects := effects s @ [showNotification (swController env) msg],
                 lastAlertTime := now env,
                 alerts := \<lparr>message = msg, time = timeString env\<rparr> # take 9 (alerts s),
                 priceHistory := h, currentPrice := Some price\<rparr>)"
  using assms(1)
  by (auto simp: pollPrice_def Let_def h_def nb_def array_slice_0_9 split: option.splits)

lemma pollPrice_alert:
  assumes "fetched env = Inr price"
    and "notificationStatus env = Granted"
    and "COOLDOWN_PERIOD < now env - lastAlertTime s"
    and "calculateBollingerBands (array_slice_from (priceHistory s) (- 19) @ [price]) 20 (Num 2) = Some b"
    and "alertMessage (toLocaleString env) price b = Some msg"
  shows "pollPrice env s = s\<lparr>bbands := Some b,
                 effects := effects s @ [showNotification (swController env) msg],
                 lastAlertTime := now env,
                 alerts := \<lparr>message = msg, time = timeString env\<rparr> # take 9 (alerts s),
                 priceHistory := array_slice_from (priceHistory s) (- 19) @ [price],
                 currentPrice := Some price\<rparr>"
  using assms by (simp add: pollPrice_def Let_def array_slice_0_9)

lemma run_polls_snoc: "run_polls (envs @ [e]) s = pollPrice e (run_polls envs s)"
  by (simp add: run_polls_def)

lemma poll_notification_cases:
  "(notifications (pollPrice env s) = notifications s
      \<and> lastAlertTime (pollPrice env s) = lastAlertTime s)
   \<or> (COOLDOWN_PERIOD < now env - lastAlertTime s
      \<and> lastAlertTime (pollPrice env s) = now env
      \<and> length (notifications (pollPrice env s)) = length (notifications s) + 1)"
proof (cases "fetched env")
  case (Inl err)
  then show ?thesis by (simp add: pollPrice_Inl notifications_def)
next
  case (Inr price)
  from pollPrice_Inr_cases [OF Inr, of s] show ?thesis
    by (auto simp: notifications_def is_notification_show)
qed

lemma run_polls_cooldown:
  assumes "\<forall>a\<in>set envs. \<forall>b\<in>set envs. now a - now b \<le> COOLDOWN_PERIOD"
  shows "(notifications (run_polls envs s) = notifications s
            \<and> lastAlertTime (run_polls envs s) = lastAlertTime s)
       \<or> (length (notifications (run_polls envs s)) = length (notifications s) + 1
            \<and> lastAlertTime (run_polls envs s) \<in> now ` set envs)"
  using assms
proof (induction envs rule: rev_induct)
  case Nil
  then show ?case by (simp add: run_polls_def)
next
  case (snoc e envs)
  let ?s = "run_polls envs s"
  from snoc.prems have "\<forall>a\<in>set envs. \<forall>b\<in>set envs. now a - now b \<le> COOLDOWN_PERIOD" by simp
  from snoc.IH [OF this] consider
    (quiet) "notifications ?s = notifications s" "lastAlertTime ?s = lastAlertTime s"
    | (fired) "length (notifications ?s) = length (notifications s) + 1"
        "lastAlertTime ?s \<in> now ` set envs"
    by blast
  then show ?case
  proof cases
    case quiet
    with poll_notification_cases [of e ?s] show ?thesis
      by (auto simp: run_polls_snoc)
  next
    case fired
    then obtain a where a: "a \<in> set envs" "lastAlertTime ?s = now a" by auto
    with snoc.prems have "now e - lastAlertTime ?s \<le> COOLDOWN_PERIOD" by simp
    with poll_notification_cases [of e ?s] fired show ?thesis
      by (auto simp: run_polls_snoc)
  qed
qed

lemma flat_history_bands:
  "calculateBollingerBands (array_slice_from (priceHistory flat_state) (- 19) @ [Num 10]) 20 (Num 2)
     = Some \<lparr>upper = Num 10, middle = Num 10, lower = Num 10\<rparr>"
proof -
  have "replicate 20 (Num 10) = Num 10 # replicate 19 (Num 10)"
    using replicate_Suc [of 19 "Num 10"] by simp
  then have "array_slice_from (priceHistory flat_state) (- 19) @ [Num 10] = replicate 20 (Num 10)"
    by (simp add: flat_state_def array_slice_from_19 replicate_append_same)
  then show ?thesis by (simp only: tens_bands)
qed

lemma mixed_history_bands:
  "calculateBollingerBands (array_slice_from (priceHistory mixed_state) (- 19) @ [Num 8]) 20 (Num 2)
     = Some \<lparr>upper = Num 12, middle = Num 10, lower = Num 8\<rparr>"
  by (simp add: mixed_state_def initial_state_def array_slice_from_19 calculateBollingerBands_def
      array_slice_from_def array_slice_def Let_def num_sub_def num_pow2_def round64_small)

lemma full_history_bands:
  "calculateBollingerBands (array_slice_from (priceHistory full_state) (- 19) @ [Num 10]) 20 (Num 2)
     = Some \<lparr>upper = Num 10, middle = Num 10, lower = Num 10\<rparr>"
proof -
  have "replicate 20 (Num 10) = Num 10 # replicate 19 (Num 10)"
    using replicate_Suc [of 19 "Num 10"] by simp
  then have "array_slice_from (priceHistory full_state) (- 19) @ [Num 10] = replicate 20 (Num 10)"
    by (simp add: full_state_def array_slice_from_19 replicate_append_same)
  then show ?thesis by (simp only: tens_bands)
qed

lemma example_env_simps:
  "fetched (example_env r p t) = r"
  "notificationStatus (example_env r p t) = p"
  "now (example_env r p t) = t"
  "timeString (example_env r p t) = ''12:00:00''"
  "swController (example_env r p t) = False"
  "toLocaleString (example_env r p t) (Num 10) = ''10''"
  "toLocaleString (example_env r p t) (Num 8) = ''8''"
  by (simp_all add: example_env_def)

lemma state_simps:
  "lastAlertTime flat_state = 0" "alerts flat_state = []" "effects flat_state = []"
  "lastAlertTime mixed_state = 0" "alerts mixed_state = []" "effects mixed_state = []"
  "lastAlertTime full_state = 0" "effects full_state = []"
  "alerts full_state
     = replicate 10 \<lparr>message = ''Price touched Lower Band at $8'', time = ''11:00:00''\<rparr>"
  "priceHistory full_state = Num 5 # replicate 19 (Num 10)"
  "priceHistory flat_state = replicate 19 (Num 10)"
  by (simp_all add: flat_state_def mixed_state_def full_state_def initial_state_def)

section \<open>The band formulas\<close>

text \<open>
  C1.  For every price sequence whose length is at least \<open>period\<close>, with \<open>period\<close> at
  least 1, \<open>calculateBollingerBands\<close> returns a result whose \<open>middle\<close> is the
  arithmetic mean of the last \<open>period\<close> elements, whose offset is the standard deviation
  (the square root of the population variance, the mean of the squared deviations from
  \<open>middle\<close> over that window, divisor \<open>period\<close>) times the multiplier, and whose bands
  are \<open>upper = middle + sd * stdDev\<close> and \<open>lower = middle - sd * stdDev\<close>.  Mean,
  variance, square root, product, sum and difference are the binary64 operations: the
  sums run from left to right and every result is rounded.  When the last \<open>period\<close>
  prices are finite and not negative, and the rounded sum \<open>s\<close> and \<open>middle\<close> are finite,
  \<open>middle\<close> differs from the mean of these prices over the reals by at most half a
  unit in the last place of \<open>s\<close> plus half a unit in the last place of \<open>middle\<close>.
\<close>

theorem bands_formula:
  assumes "1 \<le> period" and "period \<le> int (length data)"
  shows "calculateBollingerBands data period stdDev =
     Some \<lparr>upper = num_add (arithmetic_mean (last_prices data period))
                     (num_mul (standard_deviation (last_prices data period)) stdDev),
           middle = arithmetic_mean (last_prices data period),
           lower = num_sub (arithmetic_mean (last_prices data period))
                     (num_mul (standard_deviation (last_prices data period)) stdDev)\<rparr>
     \<and> int (length (last_prices data period)) = period
     \<and> (\<forall>i. i < nat period \<longrightarrow>
           last_prices data period ! i = data ! (length data - nat period + i))
     \<and> (last_prices data period = map Num xs \<and> (\<forall>x\<in>set xs. 0 \<le> x)
          \<and> foldl num_add (Num 0) (last_prices data period) = Num s
          \<and> arithmetic_mean (last_prices data period) = Num m
        \<longrightarrow> \<bar>m - sum_list xs / real_of_int period\<bar> \<le> (ulp s + ulp m) / 2)"
proof (intro conjI impI)
  show "calculateBollingerBands data period stdDev =
     Some \<lparr>upper = num_add (arithmetic_mean (last_prices data period))
                     (num_mul (standard_deviation (last_prices data period)) stdDev),
           middle = arithmetic_mean (last_prices data period),
           lower = num_sub (arithmetic_mean (last_prices data period))
                     (num_mul (standard_deviation (last_prices data period)) stdDev)\<rparr>"
    by (rule calculateBollingerBands_window [OF assms])
  show len: "int (length (last_prices data period)) = period"
    using assms by (simp add: last_prices_def)
  show "\<forall>i. i < nat period \<longrightarrow>
      last_prices data period ! i = data ! (length data - nat period + i)"
    using assms by (simp add: last_prices_def)
  assume h: "last_prices data period = map Num xs \<and> (\<forall>x\<in>set xs. 0 \<le> x)
      \<and> foldl num_add (Num 0) (last_prices data period) = Num s
      \<and> arithmetic_mean (last_prices data period) = Num m"
  then have w: "last_prices data period = map Num xs" and nn: "\<forall>x\<in>set xs. 0 \<le> x"
    by blast+
  from h have s: "foldl num_add (Num 0) (map Num xs) = Num s"
    and m: "arithmetic_mean (map Num xs) = Num m" by (simp_all only: w)
  have "int (length (map Num xs)) = period" using len by (simp only: w)
  then have lx: "int (length xs) = period" by simp
  then have "real_of_int (int (length xs)) = real_of_int period" by (rule arg_cong)
  then have n: "real (length xs) = real_of_int period" by simp
  have ne: "xs \<noteq> []" using lx assms(1) by auto
  from mean_near_exact_mean [OF nn ne s m] show
    "\<bar>m - sum_list xs / real_of_int period\<bar> \<le> (ulp s + ulp m) / 2"
    by (simp only: n)
qed

text \<open>
  Without \<open>1 \<le> period\<close> the statement fails: for \<open>period = 0\<close> the call
  \<^verbatim>\<open>data.slice(-0)\<close> keeps the whole array and the division by 0 makes \<open>middle\<close>
  infinite, which is not the mean of the last 0 prices.
\<close>

theorem bands_formula_counterexample:
  "(0::int) \<le> int (length [Num 1]) \<and> is_double 1
   \<and> calculateBollingerBands [Num 1] 0 (Num 2)
       = Some \<lparr>upper = PosInf, middle = PosInf, lower = NaN\<rparr>
   \<and> last_prices [Num 1] 0 = []
   \<and> arithmetic_mean (last_prices [Num 1] 0) = NaN
   \<and> PosInf \<noteq> NaN"
  using bands_period_zero mean_empty is_double_of_int [of 1] by (simp add: last_prices_def)

theorem bands_formula_witness:
  "(1::int) \<le> 2
   \<and> 2 \<le> int (length [Num 5, Num (3152519739159347 / 2 ^ 52), Num (7656119366529843 / 2 ^ 52)])
   \<and> last_prices [Num 5, Num (3152519739159347 / 2 ^ 52), Num (7656119366529843 / 2 ^ 52)] 2
       = [Num (3152519739159347 / 2 ^ 52), Num (7656119366529843 / 2 ^ 52)]
   \<and> calculateBollingerBands
        [Num 5, Num (3152519739159347 / 2 ^ 52), Num (7656119366529843 / 2 ^ 52)] 2 (Num 2)
       = Some \<lparr>upper = Num (2476979795053773 / 2 ^ 50),
               middle = Num (5404319552844595 / 2 ^ 52),
               lower = Num (900719925474099 / 2 ^ 52)\<rparr>
   \<and> (1::int) \<le> 20
   \<and> 20 \<le> int (length (replicate 20 (Num (577536693150679 / 2 ^ 33))))
   \<and> last_prices (replicate 20 (Num (577536693150679 / 2 ^ 33))) 20
       = map Num (replicate 20 (577536693150679 / 2 ^ 33))
   \<and> (0::real) \<le> 577536693150679 / 2 ^ 33
   \<and> foldl num_add (Num 0) (last_prices (replicate 20 (Num (577536693150679 / 2 ^ 33))) 20)
       = Num (721920866438349 / 2 ^ 29)
   \<and> arithmetic_mean (last_prices (replicate 20 (Num (577536693150679 / 2 ^ 33))) 20)
       = Num (2310146772602717 / 2 ^ 35)
   \<and> \<bar>2310146772602717 / 2 ^ 35
        - sum_list (replicate 20 (577536693150679 / 2 ^ 33)) / real_of_int 20\<bar>
       \<le> (ulp (721920866438349 / 2 ^ 29) + ulp (2310146772602717 / 2 ^ 35)) / 2
   \<and> \<bar>2310146772602717 / 2 ^ 35
        - sum_list (replicate 20 (577536693150679 / 2 ^ 33)) / real_of_int 20\<bar> = 1 / 2 ^ 35"
proof -
  let ?d = "[Num 5, Num (3152519739159347 / 2 ^ 52), Num (7656119366529843 / 2 ^ 52)]"
  let ?f = "replicate 20 (Num (577536693150679 / 2 ^ 33))"
  let ?xs = "replicate 20 (577536693150679 / 2 ^ 33 :: real)"
  have w: "last_prices ?d 2 = [Num (3152519739159347 / 2 ^ 52), Num (7656119366529843 / 2 ^ 52)]"
    by (simp add: last_prices_def)
  have A: "calculateBollingerBands ?d 2 (Num 2)
       = Some \<lparr>upper = Num (2476979795053773 / 2 ^ 50),
               middle = Num (5404319552844595 / 2 ^ 52),
               lower = Num (900719925474099 / 2 ^ 52)\<rparr>"
    using bands_formula [of 2 ?d "Num 2"] by (simp only: w bands_sevens(1,2,4,5)) simp
  have h1: "(1::int) \<le> 20" and h2: "20 \<le> int (length ?f)" by simp_all
  have lf: "last_prices ?f 20 = ?f" by (simp add: last_prices_def)
  have lp: "last_prices ?f 20 = map Num ?xs" by (simp add: last_prices_def)
  have nn: "\<forall>x\<in>set ?xs. 0 \<le> x" by simp
  have sm: "foldl num_add (Num 0) (last_prices ?f 20) = Num (721920866438349 / 2 ^ 29)"
    by (simp only: lf bands_flat_price(7))
  have mm: "arithmetic_mean (last_prices ?f 20) = Num (2310146772602717 / 2 ^ 35)"
    by (simp only: lf bands_flat_price(1))
  have B: "\<bar>2310146772602717 / 2 ^ 35 - sum_list ?xs / real_of_int 20\<bar>
       \<le> (ulp (721920866438349 / 2 ^ 29) + ulp (2310146772602717 / 2 ^ 35)) / 2"
    using bands_formula [OF h1 h2, of "Num 2" ?xs "721920866438349 / 2 ^ 29"
        "2310146772602717 / 2 ^ 35"] lp nn sm mm
    by blast
  have C: "\<bar>2310146772602717 / 2 ^ 35 - sum_list ?xs / real_of_int 20\<bar> = 1 / 2 ^ 35"
    by (simp add: sum_list_replicate)
  have x: "(0::real) \<le> 577536693150679 / 2 ^ 33" by simp
  from w A h1 h2 lp x sm mm B C show ?thesis by simp
qed

section \<open>Insufficient data\<close>

text \<open>
  C2.  For every price sequence with fewer than \<open>period\<close> elements,
  \<open>calculateBollingerBands\<close> returns the absence value.  The function is total and has
  no outcome other than a result or absence, so nothing is raised and nothing is
  computed from a short window.
\<close>

theorem calculateBollingerBands_insufficient:
  "int (length data) < period \<Longrightarrow> calculateBollingerBands data period stdDev = None"
  by (simp add: calculateBollingerBands_def)

theorem calculateBollingerBands_insufficient_witness:
  "int (length [Num 1, Num 2, Num 3]) < 20 \<and>
   calculateBollingerBands [Num 1, Num 2, Num 3] 20 (Num 2) = None"
  using calculateBollingerBands_insufficient [of "[Num 1, Num 2, Num 3]" 20 "Num 2"]
  by simp

section \<open>Touch semantics of the alert\<close>

text \<open>
  C3.  In a poll that evaluates the alert (permission granted, bands present, cooldown
  elapsed) the comparison is inclusive and the upper band is checked first: a price
  equal to or above \<open>upper\<close> produces the ``Upper Band'' message, in the alert list and
  in the notification; a price strictly below \<open>upper\<close> and at or below \<open>lower\<close> produces
  the ``Lower Band'' message; and a price satisfying both conditions produces
  ``Upper Band''.
\<close>

theorem alert_touch_semantics:
  assumes "fetched env = Inr price"
    and "notificationStatus env = Granted"
    and "COOLDOWN_PERIOD < now env - lastAlertTime s"
    and "calculateBollingerBands (array_slice_from (priceHistory s) (- 19) @ [price]) 20 (Num 2) = Some b"
  shows "(num_ge price (upper b) \<longrightarrow>
            alerts (pollPrice env s) =
              \<lparr>message = ''Price touched Upper Band at $'' @ toLocaleString env price,
               time = timeString env\<rparr> # take 9 (alerts s)
          \<and> effects (pollPrice env s) = effects s @
              [showNotification (swController env)
                 (''Price touched Upper Band at $'' @ toLocaleString env price)])
       \<and> (num_lt price (upper b) \<and> num_le price (lower b) \<longrightarrow>
            alerts (pollPrice env s) =
              \<lparr>message = ''Price touched Lower Band at $'' @ toLocaleString env price,
               time = timeString env\<rparr> # take 9 (alerts s)
          \<and> effects (pollPrice env s) = effects s @
              [showNotification (swController env)
                 (''Price touched Lower Band at $'' @ toLocaleString env price)])
       \<and> (num_ge price (upper b) \<and> num_le price (lower b) \<longrightarrow>
            alerts (pollPrice env s) =
              \<lparr>message = ''Price touched Upper Band at $'' @ toLocaleString env price,
               time = timeString env\<rparr> # take 9 (alerts s))"
proof -
  have lt: "num_lt price (upper b) \<Longrightarrow> \<not> num_ge price (upper b)"
    by (cases price; cases "upper b") (simp_all add: num_ge_def)
  show ?thesis
    using assms lt
    by (auto simp: pollPrice_def Let_def array_slice_0_9 alertMessage_def)
qed

theorem alert_touch_semantics_witness:
  "alerts (pollPrice (example_env (Inr (Num 10)) Granted 400000) flat_state)
     = [\<lparr>message = ''Price touched Upper Band at $10'', time = ''12:00:00''\<rparr>]
   \<and> effects (pollPrice (example_env (Inr (Num 10)) Granted 400000) flat_state)
     = [NewNotification ''Bitcoin Price Alert!'' ''Price touched Upper Band at $10'']
   \<and> alerts (pollPrice (example_env (Inr (Num 8)) Granted 400000) mixed_state)
     = [\<lparr>message = ''Price touched Lower Band at $8'', time = ''12:00:00''\<rparr>]
   \<and> effects (pollPrice (example_env (Inr (Num 8)) Granted 400000) mixed_state)
     = [NewNotification ''Bitcoin Price Alert!'' ''Price touched Lower Band at $8'']"
  using
    alert_touch_semantics [of "example_env (Inr (Num 10)) Granted 400000" "Num 10" flat_state,
      OF _ _ _ flat_history_bands]
    alert_touch_semantics [of "example_env (Inr (Num 8)) Granted 400000" "Num 8" mixed_state,
      OF _ _ _ mixed_history_bands]
  by (simp add: example_env_simps state_simps COOLDOWN_PERIOD_def num_ge_def showNotification_def)

section \<open>Cooldown\<close>

text \<open>
  C4.  The cooldown is 300000 ms.  A poll dispatches a notification only when
  \<open>now - lastAlertTime\<close> strictly exceeds the cooldown, and it then sets
  \<open>lastAlertTime\<close> to \<open>now\<close>.  Hence any run of polls whose evaluation times lie
  within one cooldown window of each other dispatches at most one notification,
  whatever the prices.
\<close>

theorem cooldown_suppression:
  "COOLDOWN_PERIOD = 300000
   \<and> (notifications (pollPrice env s) \<noteq> notifications s \<longrightarrow>
        COOLDOWN_PERIOD < now env - lastAlertTime s \<and> lastAlertTime (pollPrice env s) = now env)
   \<and> ((\<forall>a\<in>set envs. \<forall>b\<in>set envs. now a - now b \<le> COOLDOWN_PERIOD) \<longrightarrow>
        length (notifications (run_polls envs s)) \<le> length (notifications s) + 1)"
proof -
  have "COOLDOWN_PERIOD = 300000" by (simp add: COOLDOWN_PERIOD_def)
  moreover have "notifications (pollPrice env s) \<noteq> notifications s \<longrightarrow>
        COOLDOWN_PERIOD < now env - lastAlertTime s \<and> lastAlertTime (pollPrice env s) = now env"
    using poll_notification_cases [of env s] by auto
  moreover have "(\<forall>a\<in>set envs. \<forall>b\<in>set envs. now a - now b \<le> COOLDOWN_PERIOD) \<longrightarrow>
        length (notifications (run_polls envs s)) \<le> length (notifications s) + 1"
    using run_polls_cooldown [of envs s] by auto
  ultimately show ?thesis by blast
qed

theorem cooldown_suppression_witness:
  "notifications (pollPrice (example_env (Inr (Num 10)) Granted 400000) flat_state)
     \<noteq> notifications flat_state
   \<and> COOLDOWN_PERIOD < now (example_env (Inr (Num 10)) Granted 400000) - lastAlertTime flat_state
   \<and> lastAlertTime (pollPrice (example_env (Inr (Num 10)) Granted 400000) flat_state) = 400000
   \<and> 430000 - 400000 \<le> COOLDOWN_PERIOD
   \<and> length (notifications (run_polls [example_env (Inr (Num 10)) Granted 400000,
          example_env (Inr (Num 10)) Granted 430000] flat_state)) \<le> 1"
proof -
  let ?e1 = "example_env (Inr (Num 10)) Granted 400000"
  let ?e2 = "example_env (Inr (Num 10)) Granted 430000"
  have "pollPrice ?e1 flat_state = flat_state\<lparr>
      bbands := Some \<lparr>upper = Num 10, middle = Num 10, lower = Num 10\<rparr>,
      effects := effects flat_state @ [showNotification (swController ?e1)
         (''Price touched Upper Band at $'' @ toLocaleString ?e1 (Num 10))],
      lastAlertTime := now ?e1,
      alerts := \<lparr>message = ''Price touched Upper Band at $'' @ toLocaleString ?e1 (Num 10),
          time = timeString ?e1\<rparr> # take 9 (alerts flat_state),
      priceHistory := array_slice_from (priceHistory flat_state) (- 19) @ [Num 10],
      currentPrice := Some (Num 10)\<rparr>"
    by (rule pollPrice_alert [OF _ _ _ flat_history_bands])
      (simp_all add: example_env_simps state_simps COOLDOWN_PERIOD_def alertMessage_def num_ge_def)
  then have fired: "notifications (pollPrice ?e1 flat_state) \<noteq> notifications flat_state"
    by (simp add: notifications_def state_simps is_notification_show)
  from cooldown_suppression [of ?e1 flat_state "[?e1, ?e2]"] fired
  show ?thesis
    by (simp add: example_env_simps state_simps COOLDOWN_PERIOD_def notifications_def)
qed

section \<open>Bounded state\<close>

text \<open>
  C5.  Every poll preserves the bounds on the state: the price history has at most 20
  elements and the alert list at most 10.  A successful poll keeps the 19 most recent
  prior prices and appends the new one; an alert is prepended to the first 9 entries of
  the list, so the oldest entry is the one evicted.
\<close>

theorem bounded_state:
  assumes "length (priceHistory s) \<le> 20" and "length (alerts s) \<le> 10"
  shows "length (priceHistory (pollPrice env s)) \<le> 20
       \<and> length (alerts (pollPrice env s)) \<le> 10
       \<and> (fetched env = Inr price \<longrightarrow>
            priceHistory (pollPrice env s)
              = drop (length (priceHistory s) - 19) (priceHistory s) @ [price])
       \<and> (alerts (pollPrice env s) = alerts s
            \<or> (\<exists>a. alerts (pollPrice env s) = a # take 9 (alerts s)))"
proof (cases "fetched env")
  case (Inl err)
  then show ?thesis using assms by (simp add: pollPrice_Inl)
next
  case (Inr p)
  from pollPrice_Inr_cases [OF Inr, of s] show ?thesis
    using assms Inr by (auto simp: array_slice_from_19)
qed

theorem bounded_state_witness:
  "length (priceHistory full_state) \<le> 20 \<and> length (alerts full_state) \<le> 10
   \<and> fetched (example_env (Inr (Num 10)) Granted 400000) = Inr (Num 10)
   \<and> priceHistory full_state = Num 5 # replicate 19 (Num 10)
   \<and> priceHistory (pollPrice (example_env (Inr (Num 10)) Granted 400000) full_state)
       = replicate 19 (Num 10) @ [Num 10]
   \<and> length (priceHistory (pollPrice (example_env (Inr (Num 10)) Granted 400000) full_state)) \<le> 20
   \<and> alerts (pollPrice (example_env (Inr (Num 10)) Granted 400000) full_state)
       = \<lparr>message = ''Price touched Upper Band at $10'', time = ''12:00:00''\<rparr>
         # replicate 9 \<lparr>message = ''Price touched Lower Band at $8'', time = ''11:00:00''\<rparr>
   \<and> length (alerts (pollPrice (example_env (Inr (Num 10)) Granted 400000) full_state)) \<le> 10"
proof -
  let ?e = "example_env (Inr (Num 10)) Granted 400000"
  have "pollPrice ?e full_state = full_state\<lparr>
      bbands := Some \<lparr>upper = Num 10, middle = Num 10, lower = Num 10\<rparr>,
      effects := effects full_state @ [showNotification (swController ?e)
         (''Price touched Upper Band at $'' @ toLocaleString ?e (Num 10))],
      lastAlertTime := now ?e,
      alerts := \<lparr>message = ''Price touched Upper Band at $'' @ toLocaleString ?e (Num 10),
          time = timeString ?e\<rparr> # take 9 (alerts full_state),
      priceHistory := array_slice_from (priceHistory full_state) (- 19) @ [Num 10],
      currentPrice := Some (Num 10)\<rparr>"
    by (rule pollPrice_alert [OF _ _ _ full_history_bands])
      (simp_all add: example_env_simps state_simps COOLDOWN_PERIOD_def alertMessage_def num_ge_def)
  then have a: "alerts (pollPrice ?e full_state)
       = \<lparr>message = ''Price touched Upper Band at $10'', time = ''12:00:00''\<rparr>
         # replicate 9 \<lparr>message = ''Price touched Lower Band at $8'', time = ''11:00:00''\<rparr>"
    by (simp add: example_env_simps state_simps)
  from bounded_state [of full_state ?e "Num 10"] a show ?thesis
    by (simp add: example_env_simps state_simps)
qed

section \<open>Permission gating\<close>

text \<open>
  C6.  In every poll in which the permission state is anything other than granted, or
  the bands are absent, the detection block is skipped: no notification is dispatched,
  the alert list is unchanged and \<open>lastAlertTime\<close> is unchanged.
\<close>

theorem permission_gating:
  assumes "notificationStatus env \<noteq> Granted \<or> bbands (pollPrice env s) = None"
  shows "notifications (pollPrice env s) = notifications s
       \<and> alerts (pollPrice env s) = alerts s
       \<and> lastAlertTime (pollPrice env s) = lastAlertTime s"
  using assms
  by (auto simp: pollPrice_def Let_def notifications_def split: sum.splits option.splits if_splits)

theorem permission_gating_witness:
  "notificationStatus (example_env (Inr (Num 10)) Denied 400000) \<noteq> Granted
   \<and> notifications (pollPrice (example_env (Inr (Num 10)) Denied 400000) flat_state) = []
   \<and> alerts (pollPrice (example_env (Inr (Num 10)) Denied 400000) flat_state) = []
   \<and> lastAlertTime (pollPrice (example_env (Inr (Num 10)) Denied 400000) flat_state) = 0
   \<and> bbands (pollPrice (example_env (Inr (Num 10)) Granted 400000) initial_state) = None
   \<and> notifications (pollPrice (example_env (Inr (Num 10)) Granted 400000) initial_state) = []
   \<and> alerts (pollPrice (example_env (Inr (Num 10)) Granted 400000) initial_state) = []
   \<and> lastAlertTime (pollPrice (example_env (Inr (Num 10)) Granted 400000) initial_state) = 0"
proof -
  have n: "bbands (pollPrice (example_env (Inr (Num 10)) Granted 400000) initial_state) = None"
    by (simp add: pollPrice_def example_env_simps initial_state_def Let_def
        array_slice_from_19 calculateBollingerBands_def)
  from permission_gating [of "example_env (Inr (Num 10)) Denied 400000" flat_state]
    permission_gating [of "example_env (Inr (Num 10)) Granted 400000" initial_state] n
  show ?thesis
    by (simp add: example_env_simps state_simps notifications_def initial_state_def)
qed

section \<open>A failed poll\<close>

text \<open>
  C7.  When the price fetch of a poll fails, the error is written to the console and the
  price history, the bands, the current price, the alert list and \<open>lastAlertTime\<close>
  are left as they were.  The log entry is the poll's only effect: nothing is
  dispatched and no further attempt is made.
\<close>

theorem poll_failure_atomic:
  assumes "fetched env = Inl err"
  shows "priceHistory (pollPrice env s) = priceHistory s
       \<and> bbands (pollPrice env s) = bbands s
       \<and> currentPrice (pollPrice env s) = currentPrice s
       \<and> alerts (pollPrice env s) = alerts s
       \<and> lastAlertTime (pollPrice env s) = lastAlertTime s
       \<and> effects (pollPrice env s) = effects s @ [ConsoleError err]
       \<and> notifications (pollPrice env s) = notifications s"
  using assms by (simp add: pollPrice_def notifications_def)

theorem poll_failure_atomic_witness:
  "fetched (example_env (Inl ''Failed to fetch'') Granted 400000) = Inl ''Failed to fetch''
   \<and> priceHistory (pollPrice (example_env (Inl ''Failed to fetch'') Granted 400000) full_state)
       = Num 5 # replicate 19 (Num 10)
   \<and> bbands (pollPrice (example_env (Inl ''Failed to fetch'') Granted 400000) full_state)
       = bbands full_state
   \<and> currentPrice (pollPrice (example_env (Inl ''Failed to fetch'') Granted 400000) full_state)
       = currentPrice full_state
   \<and> alerts (pollPrice (example_env (Inl ''Failed to fetch'') Granted 400000) full_state)
       = alerts full_state
   \<and> lastAlertTime (pollPrice (example_env (Inl ''Failed to fetch'') Granted 400000) full_state) = 0
   \<and> effects (pollPrice (example_env (Inl ''Failed to fetch'') Granted 400000) full_state)
       = [ConsoleError ''Failed to fetch'']"
  using poll_failure_atomic [of "example_env (Inl ''Failed to fetch'') Granted 400000"
      "''Failed to fetch''" full_state]
  by (simp add: example_env_simps state_simps)

section \<open>Symmetry of the bands\<close>

text \<open>
  C8.  Whenever \<open>calculateBollingerBands\<close> returns three finite bands, \<open>upper\<close> and
  \<open>lower\<close> are the binary64 roundings of \<open>middle\<close> plus and minus the same offset, so
  that \<open>upper - middle\<close> and \<open>middle - lower\<close> differ by at most half a unit in the last
  place of \<open>upper\<close> plus half a unit in the last place of \<open>lower\<close>.
\<close>

theorem bands_symmetric_up_to_rounding:
  assumes "calculateBollingerBands data period stdDev = Some b"
    and "upper b = Num u" and "middle b = Num m" and "lower b = Num l"
  shows "\<bar>(u - m) - (m - l)\<bar> \<le> (ulp u + ulp l) / 2"
proof -
  from calculateBollingerBands_shape [OF assms(1)] obtain s v where
    up: "upper b = num_add (middle b) (num_mul (num_sqrt v) stdDev)"
    and lo: "lower b = num_add (middle b) (num_neg (num_mul (num_sqrt v) stdDev))"
    by blast
  define d where "d = num_mul (num_sqrt v) stdDev"
  from up assms(2,3) have "num_add (Num m) d = Num u" by (simp add: d_def)
  from num_add_Num [OF this] obtain y where y: "d = Num y" and u: "u = fl (m + y)" by blast
  from lo assms(3,4) have "num_add (Num m) (num_neg d) = Num l" by (simp add: d_def)
  then have l: "l = fl (m - y)" by (simp add: y round64_Num)
  have a: "\<bar>u - (m + y)\<bar> \<le> ulp u / 2" unfolding u by (rule fl_error_result)
  have c: "\<bar>l - (m - y)\<bar> \<le> ulp l / 2" unfolding l by (rule fl_error_result)
  have "(u - m) - (m - l) = (u - (m + y)) + (l - (m - y))" by simp
  then have "\<bar>(u - m) - (m - l)\<bar> \<le> \<bar>u - (m + y)\<bar> + \<bar>l - (m - y)\<bar>"
    by (simp only: abs_triangle_ineq)
  also have "\<dots> \<le> ulp u / 2 + ulp l / 2" using a c by (rule add_mono)
  finally show ?thesis by simp
qed

text \<open>
  The two differences need not be equal.  For the two prices 0.7 and 1.7 (the binary64
  values \<open>3152519739159347 / 2 ^ 52\<close> and \<open>7656119366529843 / 2 ^ 52\<close>), period 2 and
  multiplier 2, the bands are 2.2, 1.2 and 0.19999999999999996: \<open>upper - middle\<close> is
  \<open>1 + 1 / 2 ^ 52\<close> and \<open>middle - lower\<close> is 1, as reals and as binary64 differences.
\<close>

theorem bands_symmetric_counterexample:
  "is_double (3152519739159347 / 2 ^ 52) \<and> is_double (7656119366529843 / 2 ^ 52)
   \<and> calculateBollingerBands [Num (3152519739159347 / 2 ^ 52), Num (7656119366529843 / 2 ^ 52)]
       2 (Num 2)
     = Some \<lparr>upper = Num (2476979795053773 / 2 ^ 50),
             middle = Num (5404319552844595 / 2 ^ 52),
             lower = Num (900719925474099 / 2 ^ 52)\<rparr>
   \<and> num_sub (Num (2476979795053773 / 2 ^ 50)) (Num (5404319552844595 / 2 ^ 52))
       = Num (4503599627370497 / 2 ^ 52)
   \<and> num_sub (Num (5404319552844595 / 2 ^ 52)) (Num (900719925474099 / 2 ^ 52)) = Num 1
   \<and> Num (4503599627370497 / 2 ^ 52) \<noteq> Num 1
   \<and> (2476979795053773 / 2 ^ 50 - 5404319552844595 / 2 ^ 52 :: real)
       \<noteq> 5404319552844595 / 2 ^ 52 - 900719925474099 / 2 ^ 52"
  using bands_sevens(3,6,7,8,9) by simp

theorem bands_symmetric_up_to_rounding_witness:
  "calculateBollingerBands [Num (3152519739159347 / 2 ^ 52), Num (7656119366529843 / 2 ^ 52)]
       2 (Num 2)
     = Some \<lparr>upper = Num (2476979795053773 / 2 ^ 50),
             middle = Num (5404319552844595 / 2 ^ 52),
             lower = Num (900719925474099 / 2 ^ 52)\<rparr>
   \<and> \<bar>(2476979795053773 / 2 ^ 50 - 5404319552844595 / 2 ^ 52)
        - (5404319552844595 / 2 ^ 52 - 900719925474099 / 2 ^ 52)\<bar>
       \<le> (ulp (2476979795053773 / 2 ^ 50) + ulp (900719925474099 / 2 ^ 52)) / 2"
proof -
  have "\<bar>(2476979795053773 / 2 ^ 50 - 5404319552844595 / 2 ^ 52)
        - (5404319552844595 / 2 ^ 52 - 900719925474099 / 2 ^ 52)\<bar>
       \<le> (ulp (2476979795053773 / 2 ^ 50) + ulp (900719925474099 / 2 ^ 52)) / 2"
    by (rule bands_symmetric_up_to_rounding [OF bands_sevens(3)]) simp_all
  with bands_sevens(3) show ?thesis by (rule conjI)
qed

section \<open>Flat windows\<close>

text \<open>
  C9.  For every sequence of at least \<open>period\<close> elements, \<open>period\<close> at least 1, whose
  last \<open>period\<close> elements are all the same value \<open>v\<close>, if the running sums \<open>v\<close>,
  \<open>2 * v\<close>, ..., \<open>period * v\<close> are binary64 values (as they are for integer prices of
  moderate size) and the multiplier is finite, then the standard deviation is 0 and
  \<open>upper = middle = lower = v\<close>.
\<close>

theorem flat_window_degenerate:
  assumes "1 \<le> period" and "period \<le> int (length data)"
    and "last_prices data period = replicate (nat period) (Num v)"
    and "\<forall>j\<in>{1..nat period}. is_double (real j * v)"
  shows "standard_deviation (last_prices data period) = Num 0
       \<and> calculateBollingerBands data period (Num k)
           = Some \<lparr>upper = Num v, middle = Num v, lower = Num v\<rparr>"
proof -
  have p: "0 < nat period" using assms(1) by simp
  from flat_window(2) [OF p assms(4)] assms(3) flat_bands [OF assms]
  show ?thesis by simp
qed

text \<open>
  Without the condition on the running sums the statement fails.  Twenty prices of
  67234.12 with the default period and multiplier: the sum is rounded, \<open>middle\<close> comes
  out \<open>1 / 2 ^ 35\<close> above the price, the standard deviation is \<open>1 / 2 ^ 35\<close> and the
  three bands are three different values.
\<close>

theorem flat_window_degenerate_counterexample:
  "(1::int) \<le> 20 \<and> 20 \<le> int (length (replicate 20 (Num (577536693150679 / 2 ^ 33))))
   \<and> is_double (577536693150679 / 2 ^ 33)
   \<and> last_prices (replicate 20 (Num (577536693150679 / 2 ^ 33))) 20
       = replicate 20 (Num (577536693150679 / 2 ^ 33))
   \<and> standard_deviation (replicate 20 (Num (577536693150679 / 2 ^ 33))) = Num (1 / 2 ^ 35)
   \<and> Num (1 / 2 ^ 35) \<noteq> Num 0
   \<and> calculateBollingerBands (replicate 20 (Num (577536693150679 / 2 ^ 33))) 20 (Num 2)
       = Some \<lparr>upper = Num (2310146772602719 / 2 ^ 35),
               middle = Num (2310146772602717 / 2 ^ 35),
               lower = Num (2310146772602715 / 2 ^ 35)\<rparr>
   \<and> Num (2310146772602717 / 2 ^ 35) \<noteq> Num (577536693150679 / 2 ^ 33)
   \<and> Num (2310146772602719 / 2 ^ 35) \<noteq> Num (2310146772602715 / 2 ^ 35)"
  using bands_flat_price(2,3,6) by (simp add: last_prices_def)

theorem flat_window_degenerate_witness:
  "(1::int) \<le> 20 \<and> 20 \<le> int (length (Num 5 # replicate 20 (Num 10)))
   \<and> last_prices (Num 5 # replicate 20 (Num 10)) 20 = replicate (nat 20) (Num 10)
   \<and> standard_deviation (last_prices (Num 5 # replicate 20 (Num 10)) 20) = Num 0
   \<and> calculateBollingerBands (Num 5 # replicate 20 (Num 10)) 20 (Num 2)
       = Some \<lparr>upper = Num 10, middle = Num 10, lower = Num 10\<rparr>"
proof -
  have w: "last_prices (Num 5 # replicate 20 (Num 10)) 20 = replicate (nat 20) (Num 10)"
    by (simp add: last_prices_def)
  have d: "\<forall>j\<in>{1..nat 20}. is_double (real j * 10)"
    by (simp add: small_multiples_double)
  from flat_window_degenerate [of 20 "Num 5 # replicate 20 (Num 10)" 10 2, OF _ _ w d] w
  show ?thesis by simp
qed

section \<open>Order of the bands\<close>

text \<open>
  C10.  For every input on which \<open>calculateBollingerBands\<close> returns a result, with a
  non-negative multiplier, \<open>lower \<le> middle \<le> upper\<close> holds whenever neither band is
  NaN: the standard deviation is a square root, hence not negative, and rounding a sum
  never crosses the binary64 value \<open>middle\<close>.
\<close>

theorem bands_ordered:
  assumes "calculateBollingerBands data period stdDev = Some b"
    and "num_le (Num 0) stdDev"
    and "upper b \<noteq> NaN" and "lower b \<noteq> NaN"
  shows "num_le (lower b) (middle b) \<and> num_le (middle b) (upper b)"
proof -
  from calculateBollingerBands_shape [OF assms(1)] obtain s v where
    mid: "middle b = num_div s (Num (of_int period))"
    and up: "upper b = num_add (middle b) (num_mul (num_sqrt v) stdDev)"
    and lo: "lower b = num_add (middle b) (num_neg (num_mul (num_sqrt v) stdDev))"
    by blast
  define d where "d = num_mul (num_sqrt v) stdDev"
  have d: "d = NaN \<or> num_le (Num 0) d"
    unfolding d_def using num_sqrt_not_negative assms(2) by (rule num_mul_not_negative)
  have m: "\<And>x. middle b = Num x \<Longrightarrow> is_double x"
    using mid num_div_double by metis
  have "num_le (middle b) (num_add (middle b) d)"
    using m d assms(3) unfolding up d_def [symmetric] by (rule add_not_negative_ge)
  moreover have "num_le (num_add (middle b) (num_neg d)) (middle b)"
    using m d assms(4) unfolding lo d_def [symmetric] by (rule sub_not_negative_le)
  ultimately show ?thesis by (simp add: up lo d_def)
qed

text \<open>
  A band can be NaN.  Two prices of \<open>2 ^ 1023\<close> with period 2: their sum overflows to
  infinity, so do \<open>middle\<close> and the standard deviation, and \<open>lower\<close> is infinity minus
  infinity.
\<close>

theorem bands_ordered_counterexample:
  "(1::int) \<le> 2 \<and> 2 \<le> int (length [Num (2 ^ 1023), Num (2 ^ 1023)])
   \<and> is_double (2 ^ 1023)
   \<and> num_le (Num 0) (Num 2)
   \<and> calculateBollingerBands [Num (2 ^ 1023), Num (2 ^ 1023)] 2 (Num 2)
       = Some \<lparr>upper = PosInf, middle = PosInf, lower = NaN\<rparr>
   \<and> \<not> num_le NaN PosInf"
  using bands_overflow round64_pow2 [of 1023] by (simp add: is_double_def)

theorem bands_ordered_witness:
  "calculateBollingerBands [Num (3152519739159347 / 2 ^ 52), Num (7656119366529843 / 2 ^ 52)]
       2 (Num 2)
     = Some \<lparr>upper = Num (2476979795053773 / 2 ^ 50),
             middle = Num (5404319552844595 / 2 ^ 52),
             lower = Num (900719925474099 / 2 ^ 52)\<rparr>
   \<and> num_le (Num 0) (Num 2)
   \<and> num_le (Num (900719925474099 / 2 ^ 52)) (Num (5404319552844595 / 2 ^ 52))
   \<and> num_le (Num (5404319552844595 / 2 ^ 52)) (Num (2476979795053773 / 2 ^ 50))"
  using bands_ordered [OF bands_sevens(3)] bands_sevens(3) by simp

end
